theory Spec2Isabelle
  imports Main
begin

section \<open>Python string operations used by the work search scheme\<close>

text \<open>
  Strings are lists of characters. The functions below render the methods of Python's
  \<open>str\<close> that \<open>works.py\<close> calls, on the characters below code point 256.
\<close>

text \<open>
  \<open>str.lower\<close> on one character: below code point 256 the upper-case letters are \<open>A\<close> to \<open>Z\<close>
  (65 to 90) and the Latin-1 capitals 192 to 222 without the multiplication sign 215; each
  is 32 below its lower-case letter.
\<close>

definition lower_char :: "char \<Rightarrow> char" where
  "lower_char c =
     (if (65 \<le> (of_char c :: nat) \<and> (of_char c :: nat) \<le> 90)
         \<or> (192 \<le> (of_char c :: nat) \<and> (of_char c :: nat) \<le> 222
             \<and> (of_char c :: nat) \<noteq> 215)
      then char_of ((of_char c :: nat) + 32) else c)"

definition lower :: "string \<Rightarrow> string" where
  "lower s = map lower_char s"

definition startswith :: "string \<Rightarrow> string \<Rightarrow> bool" where
  "startswith s p = (take (length p) s = p)"

definition endswith :: "string \<Rightarrow> string \<Rightarrow> bool" where
  "endswith s p = (length p \<le> length s \<and> drop (length s - length p) s = p)"

text \<open>\<open>str.isspace\<close> on one character (code points below 256).\<close>

definition is_space :: "char \<Rightarrow> bool" where
  "is_space c = ((of_char c :: nat) \<in> {9, 10, 11, 12, 13, 28, 29, 30, 31, 32, 133, 160})"

text \<open>\<open>s.strip()\<close> and \<open>s.strip(chars)\<close> for a one-character set.\<close>

definition strip_with :: "(char \<Rightarrow> bool) \<Rightarrow> string \<Rightarrow> string" where
  "strip_with p s = rev (dropWhile p (rev (dropWhile p s)))"

definition strip :: "string \<Rightarrow> string" where
  "strip s = strip_with is_space s"

definition strip_quotes :: "string \<Rightarrow> string" where
  "strip_quotes s = strip_with (\<lambda>c. c = CHR 0x22) s"

text \<open>\<open>sep.join(xs)\<close>.\<close>

fun join :: "string \<Rightarrow> string list \<Rightarrow> string" where
  "join sep [] = []"
| "join sep [x] = x"
| "join sep (x # y # ys) = x @ sep @ join sep (y # ys)"

text \<open>
  \<open>s.split(c, 1)\<close>: the part before the first \<open>c\<close> and the part after it, or the whole
  string alone when \<open>c\<close> does not occur.
\<close>

definition split1 :: "char \<Rightarrow> string \<Rightarrow> string list" where
  "split1 c s =
     (if c \<in> set s then [takeWhile (\<lambda>x. x \<noteq> c) s, tl (dropWhile (\<lambda>x. x \<noteq> c) s)] else [s])"

text \<open>\<open>s.replace('"', '\\"')\<close>.\<close>

definition escape_quotes :: "string \<Rightarrow> string" where
  "escape_quotes s = concat (map (\<lambda>c. if c = CHR 0x22 then [CHR 0x5C, CHR 0x22] else [c]) s)"

text \<open>Truthiness of an optional string: \<open>None\<close> and the empty string are false.\<close>

fun truthy :: "string option \<Rightarrow> bool" where
  "truthy None = False"
| "truthy (Some s) = (s \<noteq> [])"


text \<open>\<open>sub in s\<close> for two strings.\<close>

fun contains :: "string \<Rightarrow> string \<Rightarrow> bool" where
  "contains sub [] = (sub = [])"
| "contains sub (c # cs) = (startswith (c # cs) sub \<or> contains sub cs)"


section \<open>The field catalog of \<open>WorkSearchScheme\<close>\<close>

definition all_fields :: "string list" where
  "all_fields =
     [''key'', ''redirects'', ''title'', ''subtitle'', ''alternative_title'',
      ''alternative_subtitle'', ''cover_i'', ''ebook_access'', ''edition_count'',
      ''edition_key'', ''by_statement'', ''publish_date'', ''lccn'', ''ia'', ''oclc'',
      ''isbn'', ''contributor'', ''publish_place'', ''publisher'', ''first_sentence'',
      ''author_key'', ''author_name'', ''author_alternative_name'', ''subject'', ''person'',
      ''place'', ''time'', ''has_fulltext'', ''title_suggest'', ''edition_count'',
      ''publish_year'', ''language'', ''number_of_pages_median'', ''ia_count'',
      ''publisher_facet'', ''author_facet'', ''first_publish_year'',
      ''subject_key'', ''person_key'', ''place_key'', ''time_key'',
      ''lcc'', ''ddc'', ''lcc_sort'', ''ddc_sort'']"

definition facet_fields :: "string list" where
  "facet_fields =
     [''has_fulltext'', ''author_facet'', ''language'', ''first_publish_year'',
      ''publisher_facet'', ''subject_facet'', ''person_facet'', ''place_facet'',
      ''time_facet'', ''public_scan_b'']"

text \<open>The alias dictionary, as the association list of its literal.\<close>

definition field_name_map_items :: "(string \<times> string) list" where
  "field_name_map_items =
     [(''author'', ''author_name''),
      (''authors'', ''author_name''),
      (''by'', ''author_name''),
      (''number_of_pages'', ''number_of_pages_median''),
      (''publishers'', ''publisher''),
      (''subtitle'', ''alternative_subtitle''),
      (''title'', ''alternative_title''),
      (''work_subtitle'', ''subtitle''),
      (''work_title'', ''title''),
      (''_ia_collection'', ''ia_collection_s'')]"

definition field_name_map :: "string \<rightharpoonup> string" where
  "field_name_map = map_of field_name_map_items"

text \<open>
  Modelled from the spec: the base class \<open>SearchScheme\<close> and its \<open>is_search_field\<close> are not
  among the sources. The spec's field catalog says that a name is queryable when it is in the
  queryable set or matches the dynamic-identifier prefix; the prefix is the part that
  \<open>WorkSearchScheme.is_search_field\<close> adds, so the inherited test is membership in
  \<open>all_fields\<close>.
\<close>

definition super_is_search_field :: "string \<Rightarrow> bool" where
  "super_is_search_field field = (field \<in> set all_fields)"

definition is_search_field :: "string \<Rightarrow> bool" where
  "is_search_field field = (super_is_search_field field \<or> startswith field ''id_'')"

text \<open>
  The alias step of \<open>transform_user_query\<close>:
  \<open>if node.name.lower() in self.field_name_map: node.name = self.field_name_map[node.name.lower()]\<close>.
\<close>

definition resolve_alias :: "string \<Rightarrow> string" where
  "resolve_alias name =
     (case field_name_map (lower name) of Some canonical \<Rightarrow> canonical | None \<Rightarrow> name)"


section \<open>Errors and external collaborators\<close>

text \<open>
  Python exceptions are values. \<open>EmptyTreeError\<close> is the exception of
  \<open>openlibrary.solr.query_utils\<close>; \<open>ValueError\<close> carries its message.
\<close>

datatype error = EmptyTreeError | ValueError string | AttributeError string


section \<open>The query tree\<close>

text \<open>
  The node classes of \<open>luqum.tree\<close> that the scheme inspects or that decide how a child is
  removed. A \<open>Range\<close> has a \<open>Word\<close> or a \<open>Phrase\<close> at each end (nothing else is admitted there
  by the grammar), with the two inclusion flags. \<open>Boost\<close> stands for the node kinds that are
  neither operations, groups nor unary operators.

  The attribute \<open>value\<close> of the node at an end of a range is a string when the tree comes from
  the parser. \<open>ddc_transform\<close> can assign the node itself to it (\<open>val.low.value = ... or val.low\<close>),
  so the attribute has a second form, \<open>Itself\<close>: the value is the node that carries it.
\<close>

datatype bound_attr = Text string | Itself

datatype bound = WordBound bound_attr | PhraseBound bound_attr

fun bound_value :: "bound \<Rightarrow> bound_attr" where
  "bound_value (WordBound v) = v"
| "bound_value (PhraseBound v) = v"

fun set_bound_value :: "bound \<Rightarrow> bound_attr \<Rightarrow> bound" where
  "set_bound_value (WordBound _) v = WordBound v"
| "set_bound_value (PhraseBound _) v = PhraseBound v"

datatype item =
    Word string
  | Phrase string
  | Range bound bound bool bool
  | Group item
  | FieldGroup item
  | SearchField string item
  | Not item
  | Prohibit item
  | Plus item
  | Boost item string
  | AndOperation "item list"
  | OrOperation "item list"
  | UnknownOperation "item list"

text \<open>\<open>item.children\<close>.\<close>

fun children :: "item \<Rightarrow> item list" where
  "children (Word _) = []"
| "children (Phrase _) = []"
| "children (Range _ _ _ _) = []"
| "children (Group e) = [e]"
| "children (FieldGroup e) = [e]"
| "children (SearchField _ e) = [e]"
| "children (Not e) = [e]"
| "children (Prohibit e) = [e]"
| "children (Plus e) = [e]"
| "children (Boost e _) = [e]"
| "children (AndOperation cs) = cs"
| "children (OrOperation cs) = cs"
| "children (UnknownOperation cs) = cs"

fun is_Word :: "item \<Rightarrow> bool" where
  "is_Word (Word _) = True"
| "is_Word _ = False"

fun is_SearchField :: "item \<Rightarrow> bool" where
  "is_SearchField (SearchField _ _) = True"
| "is_SearchField _ = False"

text \<open>\<open>node.name\<close> of a \<open>SearchField\<close>.\<close>

fun name_of :: "item \<Rightarrow> string" where
  "name_of (SearchField name _) = name"
| "name_of _ = []"

text \<open>
  The utility functions that \<open>works.py\<close> imports and that are not among the sources are
  parameters of the model: the parser and the escaping function of \<open>query_utils\<close>, the
  printer \<open>str\<close> of a tree, the ISBN, DDC and LCC normalizers of \<open>openlibrary.utils\<close>, the
  language table of \<open>upstream.utils\<close>. A normalizer that gives up returns \<open>None\<close>. The two
  range normalizers are called with the \<open>value\<close> attributes of the two ends, whatever these
  hold. What the
  request and the interpreter decide is here too: the editions feature flag
  (\<open>has_solr_editions_enabled\<close>), the language of the request (\<open>web.ctx.lang\<close>) and the order
  in which a set of strings is iterated.
\<close>

record utils =
  luqum_parser :: "string \<Rightarrow> error + item"
  to_str :: "item \<Rightarrow> string"
  fully_escape_query :: "string \<Rightarrow> string"
  normalize_isbn :: "string \<Rightarrow> string option"
  normalize_ddc :: "string \<Rightarrow> string option"
  normalize_ddc_prefix :: "string \<Rightarrow> string"
  normalize_ddc_range :: "bound_attr \<Rightarrow> bound_attr \<Rightarrow> string option \<times> string option"
  normalize_lcc_prefix :: "string \<Rightarrow> string option"
  normalize_lcc_range :: "bound_attr \<Rightarrow> bound_attr \<Rightarrow> (string \<times> string) option"
  short_lcc_to_sortable_lcc :: "string \<Rightarrow> string option"
  convert_iso_to_marc :: "string \<Rightarrow> string option"
  has_solr_editions_enabled :: bool
  web_ctx_lang :: "string option"
  set_order :: "string list \<Rightarrow> string list"


section \<open>Value normalizers\<close>

text \<open>
  Each normalizer takes the \<open>SearchField\<close> node and changes it in place; the model returns
  the node after the call. The warnings that the source logs are not modelled.
\<close>

fun isbn_transform :: "'a utils_scheme \<Rightarrow> item \<Rightarrow> item" where
  "isbn_transform u (SearchField name (Word v)) =
     (if CHR ''*'' \<notin> set v then
        (if truthy (normalize_isbn u v) then SearchField name (Word (the (normalize_isbn u v)))
         else SearchField name (Word v))
      else SearchField name (Word v))"
| "isbn_transform u sf = sf"

fun ia_collection_s_transform :: "item \<Rightarrow> item" where
  "ia_collection_s_transform (SearchField name (Word v)) =
     (let v1 = (if startswith v ''*'' then ''*'' @ v else v);
          v2 = (if endswith v1 ''*'' then v1 @ ''*'' else v1)
      in SearchField name (Word v2))"
| "ia_collection_s_transform sf = sf"

text \<open>
  \<open>ddc_transform\<close> is the one normalizer with a \<open>return\<close> statement: the model returns the
  node after the call together with the value returned. In the \<open>Range\<close> branch the source
  assigns \<open>normed_range[0] or val.low\<close> to \<open>val.low.value\<close> (and likewise at the high end): when
  the bound does not normalize, the value of the bound node becomes the bound node itself.
\<close>

fun ddc_transform :: "'a utils_scheme \<Rightarrow> item \<Rightarrow> item \<times> string option" where
  "ddc_transform u (SearchField name (Range low high il ih)) =
     (let normed_range = normalize_ddc_range u (bound_value low) (bound_value high);
          low' = set_bound_value low
                   (if truthy (fst normed_range) then Text (the (fst normed_range))
                    else Itself);
          high' = set_bound_value high
                    (if truthy (snd normed_range) then Text (the (snd normed_range))
                     else Itself)
      in (SearchField name (Range low' high' il ih), None))"
| "ddc_transform u (SearchField name (Word v)) =
     (if endswith v ''*'' then
        (SearchField name (Word v), Some (normalize_ddc_prefix u (butlast v) @ ''*''))
      else
        (let normed = normalize_ddc u (strip_quotes v) in
         if truthy normed then (SearchField name (Word (the normed)), None)
         else (SearchField name (Word v), None)))"
| "ddc_transform u (SearchField name (Phrase v)) =
     (let normed = normalize_ddc u (strip_quotes v) in
      if truthy normed then (SearchField name (Phrase (the normed)), None)
      else (SearchField name (Phrase v), None))"
| "ddc_transform u sf = (sf, None)"

fun lcc_transform :: "'a utils_scheme \<Rightarrow> item \<Rightarrow> item" where
  "lcc_transform u (SearchField name (Range low high il ih)) =
     (case normalize_lcc_range u (bound_value low) (bound_value high) of
        Some (l, h) \<Rightarrow>
          SearchField name
            (Range (set_bound_value low (Text l)) (set_bound_value high (Text h)) il ih)
      | None \<Rightarrow> SearchField name (Range low high il ih))"
| "lcc_transform u (SearchField name (Word v)) =
     (if CHR ''*'' \<in> set v \<and> \<not> startswith v ''*'' then
        (let parts = split1 CHR ''*'' v;
             lcc_prefix = normalize_lcc_prefix u (parts ! 0)
         in SearchField name
              (Word ((if truthy lcc_prefix then the lcc_prefix else parts ! 0)
                     @ ''*'' @ parts ! 1)))
      else
        (let normed = short_lcc_to_sortable_lcc u (strip_quotes v) in
         if truthy normed then SearchField name (Word (the normed))
         else SearchField name (Word v)))"
| "lcc_transform u (SearchField name (Phrase v)) =
     (let normed = short_lcc_to_sortable_lcc u (strip_quotes v) in
      if truthy normed then SearchField name (Phrase ([CHR 0x22] @ the normed @ [CHR 0x22]))
      else SearchField name (Phrase v))"
| "lcc_transform u (SearchField name (Group (UnknownOperation cs))) =
     (if list_all is_Word cs then
        (let normed = short_lcc_to_sortable_lcc u (to_str u (UnknownOperation cs)) in
         if truthy normed then
           (if CHR '' '' \<in> set (the normed)
            then SearchField name (Phrase ([CHR 0x22] @ the normed @ [CHR 0x22]))
            else SearchField name (Word (the normed @ ''*'')))
         else SearchField name (Group (UnknownOperation cs)))
      else SearchField name (Group (UnknownOperation cs)))"
| "lcc_transform u sf = sf"


section \<open>\<open>transform_user_query\<close>\<close>

text \<open>The body of the loop of \<open>transform_user_query\<close> at a \<open>SearchField\<close> node.\<close>

definition visit_user_node :: "'a utils_scheme \<Rightarrow> item \<Rightarrow> item" where
  "visit_user_node u node =
     (let n0 = (case node of
                  SearchField name e \<Rightarrow>
                    (if lower name \<in> dom field_name_map
                     then SearchField (the (field_name_map (lower name))) e
                     else node)
                | _ \<Rightarrow> node);
          n1 = (if name_of n0 = ''isbn'' then isbn_transform u n0 else n0);
          n2 = (if name_of n1 \<in> {''lcc'', ''lcc_sort''} then lcc_transform u n1 else n1);
          n3 = (if name_of n2 \<in> {''dcc'', ''dcc_sort''} then fst (ddc_transform u n2) else n2);
          n4 = (if name_of n3 = ''ia_collection_s'' then ia_collection_s_transform n3 else n3)
      in n4)"

text \<open>
  Modelled from the spec: \<open>luqum_traverse\<close> of \<open>query_utils\<close> is not among the sources; the
  spec describes a depth-first traversal that visits a node before its children. The loop of
  \<open>transform_user_query\<close> over it is this recursion: the body runs at the node, then the
  traversal goes on into the children that the node has after the body. The first component
  of the result says whether a \<open>SearchField\<close> was met (\<open>has_search_fields\<close>).
\<close>

fun nodes :: "item \<Rightarrow> nat" where
  "nodes (Word _) = 1"
| "nodes (Phrase _) = 1"
| "nodes (Range _ _ _ _) = 1"
| "nodes (Group e) = Suc (nodes e)"
| "nodes (FieldGroup e) = Suc (nodes e)"
| "nodes (SearchField _ e) = Suc (nodes e)"
| "nodes (Not e) = Suc (nodes e)"
| "nodes (Prohibit e) = Suc (nodes e)"
| "nodes (Plus e) = Suc (nodes e)"
| "nodes (Boost e _) = Suc (nodes e)"
| "nodes (AndOperation cs) = Suc (sum_list (map nodes cs))"
| "nodes (OrOperation cs) = Suc (sum_list (map nodes cs))"
| "nodes (UnknownOperation cs) = Suc (sum_list (map nodes cs))"

text \<open>No normalizer adds nodes to the tree, which is why the traversal ends.\<close>

lemma nodes_isbn_transform: "nodes (isbn_transform u t) = nodes t"
  by (cases "(u, t)" rule: isbn_transform.cases) simp_all

lemma nodes_ia_collection_s_transform: "nodes (ia_collection_s_transform t) = nodes t"
  by (cases t rule: ia_collection_s_transform.cases) (simp_all add: Let_def)

lemma nodes_ddc_transform: "nodes (fst (ddc_transform u t)) = nodes t"
  by (cases "(u, t)" rule: ddc_transform.cases) (simp_all add: Let_def)

lemma nodes_lcc_transform: "nodes (lcc_transform u t) \<le> nodes t"
  by (cases "(u, t)" rule: lcc_transform.cases) (simp_all add: Let_def split: option.splits)

lemma nodes_alias_step:
  "nodes (case t of
            SearchField name e \<Rightarrow>
              (if lower name \<in> dom field_name_map
               then SearchField (the (field_name_map (lower name))) e
               else t)
          | _ \<Rightarrow> t) = nodes t"
  by (cases t) simp_all

lemma nodes_visit_user_node: "nodes (visit_user_node u t) \<le> nodes t"
proof -
  define n0 where "n0 = (case t of
            SearchField name e \<Rightarrow>
              (if lower name \<in> dom field_name_map
               then SearchField (the (field_name_map (lower name))) e
               else t)
          | _ \<Rightarrow> t)"
  define n1 where "n1 = (if name_of n0 = ''isbn'' then isbn_transform u n0 else n0)"
  define n2 where "n2 = (if name_of n1 \<in> {''lcc'', ''lcc_sort''} then lcc_transform u n1 else n1)"
  define n3 where
    "n3 = (if name_of n2 \<in> {''dcc'', ''dcc_sort''} then fst (ddc_transform u n2) else n2)"
  define n4 where
    "n4 = (if name_of n3 = ''ia_collection_s'' then ia_collection_s_transform n3 else n3)"
  have 0: "nodes n0 = nodes t" unfolding n0_def by (rule nodes_alias_step)
  have 1: "nodes n1 = nodes n0" unfolding n1_def by (simp add: nodes_isbn_transform)
  have 2: "nodes n2 \<le> nodes n1" unfolding n2_def using nodes_lcc_transform [of u n1] by simp
  have 3: "nodes n3 = nodes n2" unfolding n3_def using nodes_ddc_transform [of u n2] by simp
  have 4: "nodes n4 = nodes n3"
    unfolding n4_def by (simp add: nodes_ia_collection_s_transform)
  have "visit_user_node u t = n4"
    unfolding visit_user_node_def Let_def n4_def n3_def n2_def n1_def n0_def by (rule refl)
  then show ?thesis using 0 1 2 3 4 by simp
qed

lemma nodes_member: "c \<in> set cs \<Longrightarrow> nodes c \<le> sum_list (map nodes cs)"
  by (induction cs) auto

function traverse_user :: "'a utils_scheme \<Rightarrow> item \<Rightarrow> bool \<times> item" where
  "traverse_user u (SearchField name e) =
     (case visit_user_node u (SearchField name e) of
        SearchField name' e' \<Rightarrow> (True, SearchField name' (snd (traverse_user u e')))
      | other \<Rightarrow> (True, other))"
| "traverse_user u (Word v) = (False, Word v)"
| "traverse_user u (Phrase v) = (False, Phrase v)"
| "traverse_user u (Range l h il ih) = (False, Range l h il ih)"
| "traverse_user u (Group e) = (let r = traverse_user u e in (fst r, Group (snd r)))"
| "traverse_user u (FieldGroup e) = (let r = traverse_user u e in (fst r, FieldGroup (snd r)))"
| "traverse_user u (Not e) = (let r = traverse_user u e in (fst r, Not (snd r)))"
| "traverse_user u (Prohibit e) = (let r = traverse_user u e in (fst r, Prohibit (snd r)))"
| "traverse_user u (Plus e) = (let r = traverse_user u e in (fst r, Plus (snd r)))"
| "traverse_user u (Boost e f) = (let r = traverse_user u e in (fst r, Boost (snd r) f))"
| "traverse_user u (AndOperation cs) =
     (let rs = map (traverse_user u) cs in (list_ex fst rs, AndOperation (map snd rs)))"
| "traverse_user u (OrOperation cs) =
     (let rs = map (traverse_user u) cs in (list_ex fst rs, OrOperation (map snd rs)))"
| "traverse_user u (UnknownOperation cs) =
     (let rs = map (traverse_user u) cs in (list_ex fst rs, UnknownOperation (map snd rs)))"
  by pat_completeness auto

termination
proof (relation "measure (\<lambda>(u, t). nodes t)", goal_cases)
  case 1 show ?case by simp
next
  case (2 u name e name' e')
  have "nodes (visit_user_node u (SearchField name e)) \<le> nodes (SearchField name e)"
    by (rule nodes_visit_user_node)
  then show ?case using 2 by simp
qed (auto simp: less_Suc_eq_le nodes_member)

text \<open>
  \<open>transform_user_query\<close>: the traversal, then the bare-ISBN fallback when no \<open>SearchField\<close>
  was met. The fallback returns what the parser makes of \<open>isbn:(...)\<close>, an error included.
\<close>

definition transform_user_query :: "'a utils_scheme \<Rightarrow> string \<Rightarrow> item \<Rightarrow> error + item" where
  "transform_user_query u user_query q_tree =
     (let (has_search_fields, q_tree') = traverse_user u q_tree in
      if \<not> has_search_fields then
        (let isbn = normalize_isbn u user_query in
         if truthy isbn \<and> length (the isbn) \<in> {10, 13}
         then luqum_parser u (''isbn:('' @ the isbn @ '')'')
         else Inr q_tree')
      else Inr q_tree')"


text \<open>Whether a tree has a \<open>SearchField\<close> node anywhere.\<close>

fun has_search_field :: "item \<Rightarrow> bool" where
  "has_search_field (SearchField _ _) = True"
| "has_search_field (Word _) = False"
| "has_search_field (Phrase _) = False"
| "has_search_field (Range _ _ _ _) = False"
| "has_search_field (Group e) = has_search_field e"
| "has_search_field (FieldGroup e) = has_search_field e"
| "has_search_field (Not e) = has_search_field e"
| "has_search_field (Prohibit e) = has_search_field e"
| "has_search_field (Plus e) = has_search_field e"
| "has_search_field (Boost e _) = has_search_field e"
| "has_search_field (AndOperation cs) = list_ex has_search_field cs"
| "has_search_field (OrOperation cs) = list_ex has_search_field cs"
| "has_search_field (UnknownOperation cs) = list_ex has_search_field cs"


section \<open>\<open>build_q_from_params\<close>\<close>

text \<open>
  \<open>re_author_key = re.compile(r'(OL\d+A)')\<close> and its \<open>search\<close>: the leftmost occurrence of
  \<open>OL\<close>, one or more digits, \<open>A\<close>. Digits and \<open>A\<close> are disjoint, so the greedy \<open>\d+\<close> takes
  every digit that follows \<open>OL\<close>.
\<close>

definition is_digit :: "char \<Rightarrow> bool" where
  "is_digit c = (48 \<le> (of_char c :: nat) \<and> (of_char c :: nat) \<le> 57)"

definition re_author_key_match :: "string \<Rightarrow> string option" where
  "re_author_key_match s =
     (if startswith s ''OL'' then
        (let ds = takeWhile is_digit (drop 2 s); rest = dropWhile is_digit (drop 2 s) in
         if ds \<noteq> [] \<and> startswith rest ''A'' then Some (''OL'' @ ds @ ''A'') else None)
      else None)"

fun re_author_key_search :: "string \<Rightarrow> string option" where
  "re_author_key_search [] = None"
| "re_author_key_search (c # cs) =
     (case re_author_key_match (c # cs) of
        Some m \<Rightarrow> Some m
      | None \<Rightarrow> re_author_key_search cs)"

text \<open>A value of the request dictionary: a string, or a list of strings.\<close>

datatype pval = PStr string | PList "string list"

definition check_params :: "string set" where
  "check_params =
     {''title'', ''publisher'', ''oclc'', ''lccn'', ''contributor'', ''subject'', ''place'',
      ''person'', ''time'', ''author_key''}"

text \<open>\<open>params[k] if isinstance(params[k], list) else [params[k]]\<close>.\<close>

fun as_list :: "pval \<Rightarrow> string list" where
  "as_list (PStr s) = [s]"
| "as_list (PList xs) = xs"

text \<open>The \<open>author\<close> clause. \<open>strip\<close> is a method of strings: a list raises.\<close>

fun author_clause :: "'a utils_scheme \<Rightarrow> pval \<Rightarrow> error + string" where
  "author_clause u (PList xs) = Inl (AttributeError ''strip'')"
| "author_clause u (PStr s) =
     (let v = strip s in
      case re_author_key_search v of
        Some m \<Rightarrow> Inr (''author_key:('' @ m @ '')'')
      | None \<Rightarrow>
          (let v = fully_escape_query u v in
           Inr (''(author_name:('' @ v @ '') OR author_alternative_name:('' @ v @ ''))'')))"

text \<open>
  The \<open>isbn\<close> clause, entered when \<open>params.get('isbn')\<close> is true. \<open>normalize_isbn\<close> takes a
  string; a list value is outside its domain and is an error of the model.
\<close>

fun isbn_clause :: "'a utils_scheme \<Rightarrow> pval \<Rightarrow> error + string list" where
  "isbn_clause u (PStr s) =
     (if s = [] then Inr []
      else Inr [''isbn:('' @
                 (if truthy (normalize_isbn u s) then the (normalize_isbn u s) else s) @ '')''])"
| "isbn_clause u (PList xs) =
     (if xs = [] then Inr [] else Inl (AttributeError ''normalize_isbn''))"

text \<open>
  \<open>check_params & set(params)\<close> is a set, and Python fixes no order for iterating it:
  \<open>order\<close> is the order in which the names of \<open>check_params\<close> come out.
\<close>

definition build_q_from_params ::
    "'a utils_scheme \<Rightarrow> string list \<Rightarrow> (string \<rightharpoonup> pval) \<Rightarrow> error + string" where
  "build_q_from_params u order params =
     (case (case params ''author'' of
              None \<Rightarrow> Inr []
            | Some a \<Rightarrow> (case author_clause u a of Inl e \<Rightarrow> Inl e | Inr c \<Rightarrow> Inr [c])) of
        Inl e \<Rightarrow> Inl e
      | Inr q_list \<Rightarrow>
          (let q_list = q_list @
                 concat (map (\<lambda>k. map (\<lambda>val. k @ '':('' @ fully_escape_query u val @ '')'')
                                      (as_list (the (params k))))
                             (filter (\<lambda>k. k \<in> check_params \<and> k \<in> dom params) order)) in
           case (case params ''isbn'' of None \<Rightarrow> Inr [] | Some i \<Rightarrow> isbn_clause u i) of
             Inl e \<Rightarrow> Inl e
           | Inr c \<Rightarrow> Inr (join '' AND '' (q_list @ c))))"


section \<open>\<open>q_to_solr_params\<close>: the edition field mapper\<close>

text \<open>The dictionary \<open>WORK_FIELD_TO_ED_FIELD\<close>, as the association list of its literal.\<close>

definition WORK_FIELD_TO_ED_FIELD :: "(string \<times> string) list" where
  "WORK_FIELD_TO_ED_FIELD =
     [(''edition_key'', ''key''),
      (''text'', ''text''),
      (''title'', ''title''),
      (''title_suggest'', ''title_suggest''),
      (''subtitle'', ''subtitle''),
      (''alternative_title'', ''title''),
      (''alternative_subtitle'', ''subtitle''),
      (''cover_i'', ''cover_i''),
      (''language'', ''language''),
      (''publisher'', ''publisher''),
      (''publisher_facet'', ''publisher_facet''),
      (''publish_date'', ''publish_date''),
      (''publish_year'', ''publish_year''),
      (''isbn'', ''isbn''),
      (''ebook_access'', ''ebook_access''),
      (''has_fulltext'', ''has_fulltext''),
      (''ia'', ''ia''),
      (''ia_collection'', ''ia_collection''),
      (''ia_box_id'', ''ia_box_id''),
      (''public_scan_b'', ''public_scan_b'')]"

definition convert_work_field_to_edition_field :: "string \<Rightarrow> error + string option" where
  "convert_work_field_to_edition_field field =
     (case map_of WORK_FIELD_TO_ED_FIELD field of
        Some ed_field \<Rightarrow> Inr (Some ed_field)
      | None \<Rightarrow>
          if startswith field ''id_'' then Inr (Some field)
          else if field \<in> set all_fields \<or> field \<in> set facet_fields then Inr None
          else Inl (ValueError (''Unknown field: '' @ field)))"

text \<open>
  The list \<open>parents\<close> that the traversal hands to the loop body, nearest ancestor first
  (Python's \<open>parents[-1]\<close> is the head). Each ancestor is in the state it has when the node
  is visited, and is paired with the position of the visited child among its children, which
  stands for the identity of the child object.
\<close>

type_synonym parents = "(item \<times> nat) list"

definition remove_nth :: "nat \<Rightarrow> 'a list \<Rightarrow> 'a list" where
  "remove_nth i xs = take i xs @ drop (Suc i) xs"

text \<open>
  Modelled from the spec: \<open>luqum_remove_child\<close> of \<open>query_utils\<close> is not among the sources.
  The spec says that deleting a subtree may collapse its parent to empty, and that a deletion
  which empties the entire tree is the outcome \<open>EmptyTreeError\<close>. The function below decides
  whether the removal of the visited node succeeds: the child is taken out of its parent; a
  parent left without children is removed from its own parent in turn; past the root there is
  nothing left. The tree that results is built by \<open>convert_node\<close>, where a removed node is
  \<open>None\<close>.
\<close>

fun luqum_remove_child :: "parents \<Rightarrow> error + unit" where
  "luqum_remove_child [] = Inl EmptyTreeError"
| "luqum_remove_child ((parent, i) # ps) =
     (if remove_nth i (children parent) = [] then luqum_remove_child ps else Inr ())"

text \<open>\<open>isinstance(parent, (luqum.tree.Not, luqum.tree.Prohibit))\<close> for \<open>parent = parents[-1]\<close>.\<close>

fun parent_is_negation :: "parents \<Rightarrow> bool" where
  "parent_is_negation ((Not _, _) # _) = True"
| "parent_is_negation ((Prohibit _, _) # _) = True"
| "parent_is_negation _ = False"

text \<open>
  The loop of \<open>convert_work_query_to_edition_query\<close> over \<open>luqum_traverse\<close> (modelled from the
  spec as for \<open>transform_user_query\<close>: depth first, a node before its children, every node of
  the tree visited whether or not it has been detached meanwhile). \<open>convert_node\<close> runs the
  body at the node and goes on into its children; \<open>convert_children ps mk kept rest\<close> visits
  the children \<open>rest\<close> of the node \<open>mk (kept @ rest)\<close> from left to right, \<open>kept\<close> being the
  children already visited that remain. The result is the node after the loop, \<open>None\<close> when it
  has been removed from its parent; an exception ends the loop at once.
\<close>

fun convert_node :: "parents \<Rightarrow> item \<Rightarrow> error + item option"
  and convert_children ::
    "parents \<Rightarrow> (item list \<Rightarrow> item) \<Rightarrow> item list \<Rightarrow> item list \<Rightarrow> error + item option"
where
  "convert_node ps (SearchField name e) =
     (if name \<noteq> ''*'' then
        (case convert_work_field_to_edition_field name of
           Inl err \<Rightarrow> Inl err
         | Inr new_name \<Rightarrow>
             if truthy new_name then
               (let name' = (if parent_is_negation ps then the new_name
                             else ''+'' @ the new_name) in
                convert_children ps (\<lambda>cs. SearchField name' (hd cs)) [] [e])
             else
               (case luqum_remove_child ps of
                  Inl err \<Rightarrow> Inl err
                | Inr _ \<Rightarrow>
                    (case convert_children ps (\<lambda>cs. SearchField name (hd cs)) [] [e] of
                       Inl err \<Rightarrow> Inl err
                     | Inr _ \<Rightarrow> Inr None)))
      else convert_children ps (\<lambda>cs. SearchField name (hd cs)) [] [e])"
| "convert_node ps (Word v) = Inr (Some (Word v))"
| "convert_node ps (Phrase v) = Inr (Some (Phrase v))"
| "convert_node ps (Range l h il ih) = Inr (Some (Range l h il ih))"
| "convert_node ps (Group e) = convert_children ps (\<lambda>cs. Group (hd cs)) [] [e]"
| "convert_node ps (FieldGroup e) = convert_children ps (\<lambda>cs. FieldGroup (hd cs)) [] [e]"
| "convert_node ps (Not e) = convert_children ps (\<lambda>cs. Not (hd cs)) [] [e]"
| "convert_node ps (Prohibit e) = convert_children ps (\<lambda>cs. Prohibit (hd cs)) [] [e]"
| "convert_node ps (Plus e) = convert_children ps (\<lambda>cs. Plus (hd cs)) [] [e]"
| "convert_node ps (Boost e f) = convert_children ps (\<lambda>cs. Boost (hd cs) f) [] [e]"
| "convert_node ps (AndOperation cs) =
     (if cs = [] then Inr (Some (AndOperation [])) else convert_children ps AndOperation [] cs)"
| "convert_node ps (OrOperation cs) =
     (if cs = [] then Inr (Some (OrOperation [])) else convert_children ps OrOperation [] cs)"
| "convert_node ps (UnknownOperation cs) =
     (if cs = [] then Inr (Some (UnknownOperation []))
      else convert_children ps UnknownOperation [] cs)"
| "convert_children ps mk kept [] =
     Inr (if kept = [] then None else Some (mk kept))"
| "convert_children ps mk kept (c # rest) =
     (case convert_node ((mk (kept @ c # rest), length kept) # ps) c of
        Inl err \<Rightarrow> Inl err
      | Inr None \<Rightarrow> convert_children ps mk kept rest
      | Inr (Some c') \<Rightarrow> convert_children ps mk (kept @ [c']) rest)"

text \<open>
  \<open>convert_work_query_to_edition_query\<close>: \<open>EmptyTreeError\<close> is caught and gives the empty
  string; every other exception goes to the caller. At the root a removal always raises
  \<open>EmptyTreeError\<close>, so the loop never ends with the root removed.
\<close>

definition convert_work_query_to_edition_query :: "'a utils_scheme \<Rightarrow> string \<Rightarrow> error + string"
  where
  "convert_work_query_to_edition_query u work_query =
     (case luqum_parser u work_query of
        Inl err \<Rightarrow> Inl err
      | Inr q_tree \<Rightarrow>
          (case convert_node [] q_tree of
             Inl EmptyTreeError \<Rightarrow> Inr []
           | Inl err \<Rightarrow> Inl err
           | Inr None \<Rightarrow> Inr []
           | Inr (Some q_tree') \<Rightarrow> Inr (to_str u q_tree')))"


section \<open>\<open>q_to_solr_params\<close>: the parameter list\<close>

definition dq :: string where
  "dq = [CHR 0x22]"

definition full_work_query :: string where
  "full_work_query =
     ''({!edismax q.op='' @ dq @ ''AND'' @ dq
       @ '' qf='' @ dq @ ''text alternative_title^20 author_name^20'' @ dq
       @ '' bf='' @ dq @ ''min(100,edition_count)'' @ dq
       @ '' v=$workQuery})''"

definition full_ed_query_of :: "string \<Rightarrow> string \<Rightarrow> string" where
  "full_ed_query_of user_lang ed_q =
     ''({!edismax bq='' @ dq
       @ join '' '' [''language:'' @ user_lang @ ''^40'', ''ebook_access:public^10'',
                     ''ebook_access:borrowable^8'', ''ebook_access:printdisabled^2'',
                     ''cover_i:*^2'']
       @ dq
       @ '' v='' @ dq @ (if escape_quotes ed_q \<noteq> [] then escape_quotes ed_q else ''*:*'') @ dq
       @ '' qf='' @ dq @ ''text title^4'' @ dq @ ''})''"

definition parent_join_clause :: string where
  "parent_join_clause =
     ''_query_:'' @ dq @ ''{!parent which=type:work v=$edQuery filters=$editions.fq}'' @ dq
       @ '' ''"

definition editionless_clause :: string where
  "editionless_clause = ''OR edition_count:0''"

definition joined_q :: string where
  "joined_q =
     ''+'' @ full_work_query @ '' '' @ ''+('' @ parent_join_clause @ editionless_clause @ '')''"

text \<open>
  The loop that moves the \<open>fq\<close> parameters over to the editions. The unpacking of
  \<open>param_value.split(':', 1)\<close> raises when the value has no colon.
\<close>

fun collect_editions_fq :: "(string \<times> string) list \<Rightarrow> string list \<Rightarrow> error + string list" where
  "collect_editions_fq [] editions_fq = Inr editions_fq"
| "collect_editions_fq ((param_name, param_value) # rest) editions_fq =
     (if param_name \<noteq> ''fq'' \<or> startswith param_value ''type:''
      then collect_editions_fq rest editions_fq
      else
        (case split1 CHR '':'' param_value of
           [field_name, field_val] \<Rightarrow>
             (case convert_work_field_to_edition_field field_name of
                Inl err \<Rightarrow> Inl err
              | Inr ed_field \<Rightarrow>
                  if truthy ed_field
                  then collect_editions_fq rest (editions_fq @ [the ed_field @ '':'' @ field_val])
                  else collect_editions_fq rest editions_fq)
         | _ \<Rightarrow> Inl (ValueError ''not enough values to unpack (expected 2, got 1)'')))"

text \<open>
  The end of \<open>q_to_solr_params\<close>, from \<open>if ed_q or len(editions_fq) > 1\<close>. \<open>solr_fields\<close> is a
  set: it is given by a list of its elements, and \<open>set_order\<close> gives the order in which a set
  built from them is joined.
\<close>

definition edition_fields_of :: "'a utils_scheme \<Rightarrow> string list \<Rightarrow> string list" where
  "edition_fields_of u solr_fields =
     (let edition_fields =
            set_order u (map (\<lambda>f. split1 CHR ''.'' f ! 1)
                             (filter (\<lambda>f. startswith f ''editions.'') solr_fields)) in
      if edition_fields = []
      then set_order u (filter (\<lambda>f. f \<noteq> ''editions:[subquery]'') solr_fields)
      else edition_fields)"

definition emit_q ::
    "'a utils_scheme \<Rightarrow> string list \<Rightarrow> (string \<times> string) list \<Rightarrow> string option \<Rightarrow> string list
       \<Rightarrow> string \<Rightarrow> (string \<times> string) list" where
  "emit_q u solr_fields params ed_q editions_fq full_ed_query =
     (if truthy ed_q \<or> length editions_fq > 1 then
        params
        @ [(''edQuery'', if truthy ed_q then full_ed_query else ''*:*'')]
        @ [(''q'', joined_q)]
        @ [(''editions.q'', ''({!terms f=_root_ v=$row.key}) AND '' @ full_ed_query)]
        @ [(''editions.rows'', ''1'')]
        @ [(''editions.fl'', join '','' (edition_fields_of u solr_fields))]
      else params @ [(''q'', full_work_query)])"

text \<open>
  \<open>q_to_solr_params\<close>. With the edition mode off, \<open>ed_q\<close> is \<open>None\<close>, \<open>editions_fq\<close> is empty
  and \<open>full_ed_query\<close> is unbound; it is read in the join branch only, which the edition mode
  alone can reach, and the model passes the empty string for it.
\<close>

definition q_to_solr_params ::
    "'a utils_scheme \<Rightarrow> string \<Rightarrow> string list \<Rightarrow> error + (string \<times> string) list" where
  "q_to_solr_params u q solr_fields =
     (case luqum_parser u q of
        Inl err \<Rightarrow> Inl err
      | Inr work_q_tree \<Rightarrow>
          (let params = [(''workQuery'', to_str u work_q_tree)] in
           if has_solr_editions_enabled u \<and> ''editions:[subquery]'' \<in> set solr_fields then
             (case collect_editions_fq params [''type:edition''] of
                Inl err \<Rightarrow> Inl err
              | Inr editions_fq \<Rightarrow>
                  (let params = params @ map (\<lambda>fq. (''editions.fq'', fq)) editions_fq;
                       lang = (if truthy (web_ctx_lang u) then the (web_ctx_lang u) else ''en'');
                       user_lang = (if truthy (convert_iso_to_marc u lang)
                                    then the (convert_iso_to_marc u lang) else ''eng'')
                   in case convert_work_query_to_edition_query u (to_str u work_q_tree) of
                        Inl err \<Rightarrow> Inl err
                      | Inr ed_q \<Rightarrow>
                          Inr (emit_q u solr_fields params (Some ed_q) editions_fq
                                 (full_ed_query_of user_lang ed_q))))
           else Inr (emit_q u solr_fields params None [] [])))"


text \<open>The names of the \<open>SearchField\<close> nodes of a tree, in the order of the traversal.\<close>

fun field_names :: "item \<Rightarrow> string list" where
  "field_names (SearchField name e) = name # field_names e"
| "field_names (Word _) = []"
| "field_names (Phrase _) = []"
| "field_names (Range _ _ _ _) = []"
| "field_names (Group e) = field_names e"
| "field_names (FieldGroup e) = field_names e"
| "field_names (Not e) = field_names e"
| "field_names (Prohibit e) = field_names e"
| "field_names (Plus e) = field_names e"
| "field_names (Boost e _) = field_names e"
| "field_names (AndOperation cs) = concat (map field_names cs)"
| "field_names (OrOperation cs) = concat (map field_names cs)"
| "field_names (UnknownOperation cs) = concat (map field_names cs)"

text \<open>
  The three kinds of field name that \<open>convert_work_field_to_edition_field\<close> tells apart
  beside the renamed and the \<open>id_\<close> ones, for a name other than the match-all \<open>*\<close>, which the
  loop skips: a name unknown to the catalog, and a name of the catalog that editions do not
  have.
\<close>

definition unknown_field :: "string \<Rightarrow> bool" where
  "unknown_field name =
     (name \<noteq> ''*'' \<and> map_of WORK_FIELD_TO_ED_FIELD name = None \<and> \<not> startswith name ''id_''
      \<and> name \<notin> set all_fields \<and> name \<notin> set facet_fields)"

definition work_only_field :: "string \<Rightarrow> bool" where
  "work_only_field name =
     (name \<noteq> ''*'' \<and> map_of WORK_FIELD_TO_ED_FIELD name = None \<and> \<not> startswith name ''id_''
      \<and> (name \<in> set all_fields \<or> name \<in> set facet_fields))"


text \<open>
  What the spec says of the deletions, as two predicates on a tree, to which the loop is
  compared. \<open>vanishes t\<close>: the loop removes the whole subtree \<open>t\<close> and meets no unknown field in
  it. A work-only field vanishes when no unknown field is below it (the traversal still visits
  its subtree); a field that is kept, and a group or operator, vanish with their children; a
  word, a phrase and a range stay.
\<close>

fun vanishes :: "item \<Rightarrow> bool" where
  "vanishes (SearchField name e) =
     (if work_only_field name then \<not> list_ex unknown_field (field_names e)
      else if unknown_field name then False
      else vanishes e)"
| "vanishes (Word _) = False"
| "vanishes (Phrase _) = False"
| "vanishes (Range _ _ _ _) = False"
| "vanishes (Group e) = vanishes e"
| "vanishes (FieldGroup e) = vanishes e"
| "vanishes (Not e) = vanishes e"
| "vanishes (Prohibit e) = vanishes e"
| "vanishes (Plus e) = vanishes e"
| "vanishes (Boost e _) = vanishes e"
| "vanishes (AndOperation cs) = (cs \<noteq> [] \<and> list_all vanishes cs)"
| "vanishes (OrOperation cs) = (cs \<noteq> [] \<and> list_all vanishes cs)"
| "vanishes (UnknownOperation cs) = (cs \<noteq> [] \<and> list_all vanishes cs)"

text \<open>
  \<open>emptied t\<close>: the loop empties the whole tree \<open>t\<close>, that is, it reaches a work-only field when
  nothing else is left: every ancestor of that field has it, or the ancestor below, as its
  last child, and all the children before have vanished. The removal of that field raises
  \<open>EmptyTreeError\<close> at once, before its subtree is visited.
\<close>

fun emptied :: "item \<Rightarrow> bool"
  and emptied_children :: "item list \<Rightarrow> bool"
where
  "emptied (SearchField name e) =
     (if work_only_field name then True
      else if unknown_field name then False
      else emptied e)"
| "emptied (Word _) = False"
| "emptied (Phrase _) = False"
| "emptied (Range _ _ _ _) = False"
| "emptied (Group e) = emptied e"
| "emptied (FieldGroup e) = emptied e"
| "emptied (Not e) = emptied e"
| "emptied (Prohibit e) = emptied e"
| "emptied (Plus e) = emptied e"
| "emptied (Boost e _) = emptied e"
| "emptied (AndOperation cs) = emptied_children cs"
| "emptied (OrOperation cs) = emptied_children cs"
| "emptied (UnknownOperation cs) = emptied_children cs"
| "emptied_children [] = False"
| "emptied_children [c] = emptied c"
| "emptied_children (c # d # cs) = (vanishes c \<and> emptied_children (d # cs))"

text \<open>
  How the loop leaves a node: it emptied the tree, it raised another exception, it removed
  the node from its parent, or it kept the node. \<open>loop_outcome alone t\<close> says which, from the
  predicates above, for a subtree \<open>t\<close> that is all that is left of the tree (\<open>alone\<close>) or not;
  \<open>children_outcome\<close> does so for the children still to visit of a node, \<open>none_kept\<close> telling
  that no child visited before remains.
\<close>

datatype outcome = Emptied | Raised error | Removed | Kept

fun outcome_of :: "error + item option \<Rightarrow> outcome" where
  "outcome_of (Inl EmptyTreeError) = Emptied"
| "outcome_of (Inl (ValueError m)) = Raised (ValueError m)"
| "outcome_of (Inl (AttributeError m)) = Raised (AttributeError m)"
| "outcome_of (Inr None) = Removed"
| "outcome_of (Inr (Some _)) = Kept"

definition loop_outcome :: "bool \<Rightarrow> item \<Rightarrow> outcome" where
  "loop_outcome alone t =
     (if alone \<and> emptied t then Emptied
      else case find unknown_field (field_names t) of
             Some f \<Rightarrow> Raised (ValueError (''Unknown field: '' @ f))
           | None \<Rightarrow> if vanishes t then Removed else Kept)"

definition children_outcome :: "bool \<Rightarrow> bool \<Rightarrow> item list \<Rightarrow> outcome" where
  "children_outcome alone none_kept rest =
     (if alone \<and> none_kept \<and> emptied_children rest then Emptied
      else case find unknown_field (concat (map field_names rest)) of
             Some f \<Rightarrow> Raised (ValueError (''Unknown field: '' @ f))
           | None \<Rightarrow> if none_kept \<and> list_all vanishes rest then Removed else Kept)"


section \<open>An instance of the parameters\<close>

text \<open>
  A small instance of the external collaborators, on which the theorems below are run: a
  printer of trees (a bound whose value is the node itself has no text and prints as nothing),
  a parser that knows a few queries, an escaping function that leaves plain
  text alone, an ISBN normalizer that keeps the digits and \<open>X\<close> of a string of 10 or 13 such
  characters, DDC and LCC normalizers that know one class number each.
\<close>

fun attr_str :: "bound_attr \<Rightarrow> string" where
  "attr_str (Text v) = v"
| "attr_str Itself = []"

fun item_str :: "item \<Rightarrow> string" where
  "item_str (Word v) = v"
| "item_str (Phrase v) = v"
| "item_str (Range l h il ih) =
     (if il then ''['' else ''{'') @ attr_str (bound_value l) @ '' TO ''
       @ attr_str (bound_value h) @ (if ih then '']'' else ''}'')"
| "item_str (Group e) = ''('' @ item_str e @ '')''"
| "item_str (FieldGroup e) = ''('' @ item_str e @ '')''"
| "item_str (SearchField name e) = name @ '':'' @ item_str e"
| "item_str (Not e) = ''NOT '' @ item_str e"
| "item_str (Prohibit e) = ''-'' @ item_str e"
| "item_str (Plus e) = ''+'' @ item_str e"
| "item_str (Boost e f) = item_str e @ ''^'' @ f"
| "item_str (AndOperation cs) = join '' AND '' (map item_str cs)"
| "item_str (OrOperation cs) = join '' OR '' (map item_str cs)"
| "item_str (UnknownOperation cs) = join '' '' (map item_str cs)"

definition example_parser :: "string \<Rightarrow> error + item" where
  "example_parser s =
     (if s = ''title:Emma'' then Inr (SearchField ''title'' (Word ''Emma''))
      else if s = ''subject:love'' then Inr (SearchField ''subject'' (Word ''love''))
      else if s = ''isbn:(9780140449136)''
        then Inr (SearchField ''isbn'' (FieldGroup (Word ''9780140449136'')))
      else if s = ''title:Emma subject:love foo:bar''
        then Inr (UnknownOperation [SearchField ''title'' (Word ''Emma''),
                                    SearchField ''subject'' (Word ''love''),
                                    SearchField ''foo'' (Word ''bar'')])
      else if s = ''subject:(foo:bar)''
        then Inr (SearchField ''subject'' (FieldGroup (SearchField ''foo'' (Word ''bar''))))
      else if s = ''NOT title:Emma'' then Inr (Not (SearchField ''title'' (Word ''Emma'')))
      else if s = ''NOT (title:Emma)''
        then Inr (Not (Group (SearchField ''title'' (Word ''Emma''))))
      else if s = ''title:Emma foo:bar''
        then Inr (UnknownOperation [SearchField ''title'' (Word ''Emma''),
                                    SearchField ''foo'' (Word ''bar'')])
      else Inl (ValueError ''Illegal query''))"

definition example_normalize_isbn :: "string \<Rightarrow> string option" where
  "example_normalize_isbn s =
     (let d = filter (\<lambda>c. is_digit c \<or> c = CHR ''X'' \<or> c = CHR ''x'') s in
      if length d = 10 \<or> length d = 13 then Some d else None)"

definition example_utils :: utils where
  "example_utils =
     \<lparr> luqum_parser = example_parser,
       to_str = item_str,
       fully_escape_query = (\<lambda>s. s),
       normalize_isbn = example_normalize_isbn,
       normalize_ddc = (\<lambda>s. if s = ''1.5'' \<or> s = ''001.5'' then Some ''001.5'' else None),
       normalize_ddc_prefix = (\<lambda>s. s),
       normalize_ddc_range = (\<lambda>l h. (None, None)),
       normalize_lcc_prefix = (\<lambda>s. if s = ''NC1'' then Some ''NC-0001'' else None),
       normalize_lcc_range = (\<lambda>l h. None),
       short_lcc_to_sortable_lcc =
         (\<lambda>s. if s = ''NC1'' \<or> s = ''NC-0001.00000000'' then Some ''NC-0001.00000000''
              else None),
       convert_iso_to_marc = (\<lambda>s. if s = ''en'' then Some ''eng'' else None),
       has_solr_editions_enabled = True,
       web_ctx_lang = Some ''en'',
       set_order = remdups \<rparr>"

definition example_order :: "string list" where
  "example_order =
     [''title'', ''publisher'', ''oclc'', ''lccn'', ''contributor'', ''subject'', ''place'',
      ''person'', ''time'', ''author_key'']"


section \<open>The field catalog: aliases\<close>

text \<open>
  C7 (as the claim states it, refuted): every key of the alias map resolves to a member of
  the queryable-field set. The private alias \<open>_ia_collection\<close> resolves to \<open>ia_collection_s\<close>,
  which is not in \<open>all_fields\<close>, is no alias key and has no \<open>id_\<close> prefix.
\<close>

theorem alias_private_field_not_queryable:
  "field_name_map ''_ia_collection'' = Some ''ia_collection_s''
   \<and> \<not> is_search_field ''ia_collection_s''
   \<and> ''ia_collection_s'' \<notin> set all_fields
   \<and> field_name_map ''ia_collection_s'' = None"
  by (simp add: field_name_map_def field_name_map_items_def is_search_field_def
        super_is_search_field_def all_fields_def startswith_def)

text \<open>
  C7 (amended): every key of the alias map other than the private \<open>_ia_collection\<close> resolves
  to a canonical name that is in \<open>all_fields\<close> and is accepted by \<open>is_search_field\<close>; the keys
  are lower case and the lookup lowers the name it is given, so every spelling of a key that
  differs in case only resolves to the same canonical name.
\<close>

theorem alias_map_canonical:
  assumes "field_name_map k = Some c" and "k \<noteq> ''_ia_collection''"
  shows "c \<in> set all_fields \<and> is_search_field c \<and> lower k = k
         \<and> (\<forall>name. lower name = k \<longrightarrow> resolve_alias name = c)"
proof -
  have "(k, c) \<in> set field_name_map_items"
    using assms(1) unfolding field_name_map_def by (rule map_of_SomeD)
  then have cases: "(k, c) \<in> set (butlast field_name_map_items)"
    using assms(2) by (auto simp: field_name_map_items_def)
  have low: "lower k = k"
    using cases by (auto simp: field_name_map_items_def lower_def lower_char_def)
  have mem: "c \<in> set all_fields"
    using cases by (auto simp: field_name_map_items_def all_fields_def)
  have res: "\<forall>name. lower name = k \<longrightarrow> resolve_alias name = c"
    using assms(1) by (simp add: resolve_alias_def)
  show ?thesis using low mem res by (simp add: is_search_field_def super_is_search_field_def)
qed

theorem alias_map_canonical_witness:
  "field_name_map ''title'' = Some ''alternative_title''
   \<and> ''alternative_title'' \<in> set all_fields
   \<and> is_search_field ''alternative_title''
   \<and> resolve_alias ''TiTle'' = ''alternative_title''"
proof -
  have k: "field_name_map ''title'' = Some ''alternative_title''"
    by (simp add: field_name_map_def field_name_map_items_def)
  have l: "lower ''TiTle'' = ''title''"
    by code_simp
  show ?thesis
    using alias_map_canonical [OF k] k l by simp
qed


section \<open>The structured-query builder\<close>

lemma filter_distinct_single:
  "distinct ks \<Longrightarrow> x \<in> set ks \<Longrightarrow> filter (\<lambda>k. k = x) ks = [x]"
  by (induction ks) (auto simp: filter_empty_conv)

lemma no_author_key_in_jane_austen: "re_author_key_search ''Jane Austen'' = None"
  by (simp add: re_author_key_match_def startswith_def)

lemma strip_jane_austen: "strip ''Jane Austen'' = ''Jane Austen''"
  by (simp add: strip_def strip_with_def is_space_def)

text \<open>
  C9: for the input \<open>{author: "Jane Austen", title: "Emma"}\<close>, \<open>build_q_from_params\<close> returns
  \<open>(author_name:(Jane Austen) OR author_alternative_name:(Jane Austen)) AND title:(Emma)\<close>,
  and for the empty input it returns the empty string, without an error. The escaping
  function is a parameter: it leaves the two values, which have no special character,
  as they are. The result is the same in whatever order the set of names is iterated.
\<close>

theorem build_q_from_params_author_title:
  assumes esc: "fully_escape_query u ''Jane Austen'' = ''Jane Austen''"
               "fully_escape_query u ''Emma'' = ''Emma''"
    and ord: "distinct order" "set order = check_params"
  shows "build_q_from_params u order
             [''author'' \<mapsto> PStr ''Jane Austen'', ''title'' \<mapsto> PStr ''Emma'']
           = Inr ''(author_name:(Jane Austen) OR author_alternative_name:(Jane Austen)) AND title:(Emma)''
         \<and> build_q_from_params u order Map.empty = Inr []"
proof -
  let ?params = "[''author'' \<mapsto> PStr ''Jane Austen'', ''title'' \<mapsto> PStr ''Emma'']"
  have t: "''title'' \<in> set order" using ord(2) by (simp add: check_params_def)
  have "filter (\<lambda>k. k \<in> check_params \<and> k \<in> dom ?params) order
          = filter (\<lambda>k. k = ''title'') order"
    by (rule filter_cong) (auto simp: check_params_def)
  then have f: "filter (\<lambda>k. k \<in> check_params \<and> k \<in> dom ?params) order = [''title'']"
    using filter_distinct_single [OF ord(1) t] by simp
  have a: "author_clause u (PStr ''Jane Austen'')
             = Inr ''(author_name:(Jane Austen) OR author_alternative_name:(Jane Austen))''"
    by (simp add: strip_jane_austen no_author_key_in_jane_austen esc
          del: re_author_key_search.simps)
  have 1: "build_q_from_params u order ?params
           = Inr ''(author_name:(Jane Austen) OR author_alternative_name:(Jane Austen)) AND title:(Emma)''"
    unfolding build_q_from_params_def f using a by (simp add: esc)
  have 2: "build_q_from_params u order Map.empty = Inr []"
    unfolding build_q_from_params_def by simp
  show ?thesis using 1 2 by simp
qed

theorem build_q_from_params_author_title_witness:
  "build_q_from_params example_utils example_order
       [''author'' \<mapsto> PStr ''Jane Austen'', ''title'' \<mapsto> PStr ''Emma'']
     = Inr ''(author_name:(Jane Austen) OR author_alternative_name:(Jane Austen)) AND title:(Emma)''
   \<and> build_q_from_params example_utils example_order Map.empty = Inr []"
proof -
  have e1: "fully_escape_query example_utils ''Jane Austen'' = ''Jane Austen''"
    by (simp add: example_utils_def)
  have e2: "fully_escape_query example_utils ''Emma'' = ''Emma''"
    by (simp add: example_utils_def)
  have d: "distinct example_order" by (simp add: example_order_def)
  have s: "set example_order = check_params"
    by (simp add: example_order_def check_params_def)
  show ?thesis by (rule build_q_from_params_author_title [OF e1 e2 d s])
qed


section \<open>The query tree rewriter\<close>

lemma map_traverse_unchanged:
  "\<forall>c \<in> set cs. f c = (False, c) \<Longrightarrow> \<not> list_ex fst (map f cs) \<and> map snd (map f cs) = cs"
  by (induction cs) auto

lemma traverse_user_no_search_field:
  "\<not> has_search_field t \<Longrightarrow> traverse_user u t = (False, t)"
proof (induction u t rule: traverse_user.induct)
  case (11 u cs)
  then have "\<forall>c \<in> set cs. traverse_user u c = (False, c)"
    by (simp add: list_ex_iff)
  then show ?case using map_traverse_unchanged [of cs "traverse_user u"] by (simp add: Let_def)
next
  case (12 u cs)
  then have "\<forall>c \<in> set cs. traverse_user u c = (False, c)"
    by (simp add: list_ex_iff)
  then show ?case using map_traverse_unchanged [of cs "traverse_user u"] by (simp add: Let_def)
next
  case (13 u cs)
  then have "\<forall>c \<in> set cs. traverse_user u c = (False, c)"
    by (simp add: list_ex_iff)
  then show ?case using map_traverse_unchanged [of cs "traverse_user u"] by (simp add: Let_def)
qed simp_all

text \<open>
  C3: when the tree has no \<open>SearchField\<close> node and \<open>normalize_isbn\<close> turns the raw query
  into a string of 10 or 13 characters, \<open>transform_user_query\<close> returns what the parser makes
  of \<open>isbn:(<normalized-isbn>)\<close> in place of the original tree. On the raw input
  \<open>9780140449136\<close> this is the tree of \<open>isbn:(9780140449136)\<close>.
\<close>

theorem bare_isbn_fallback:
  assumes "\<not> has_search_field q_tree"
    and "normalize_isbn u user_query = Some isbn"
    and "length isbn = 10 \<or> length isbn = 13"
  shows "transform_user_query u user_query q_tree = luqum_parser u (''isbn:('' @ isbn @ '')'')"
proof -
  have t: "traverse_user u q_tree = (False, q_tree)"
    using assms(1) by (rule traverse_user_no_search_field)
  have "isbn \<noteq> []" using assms(3) by auto
  then show ?thesis
    unfolding transform_user_query_def t using assms(2,3) by auto
qed

theorem bare_isbn_fallback_witness:
  "\<not> has_search_field (Word ''9780140449136'')
   \<and> normalize_isbn example_utils ''9780140449136'' = Some ''9780140449136''
   \<and> transform_user_query example_utils ''9780140449136'' (Word ''9780140449136'')
       = Inr (SearchField ''isbn'' (FieldGroup (Word ''9780140449136'')))"
proof -
  have a: "\<not> has_search_field (Word ''9780140449136'')" by simp
  have b: "normalize_isbn example_utils ''9780140449136'' = Some ''9780140449136''"
    by (simp add: example_utils_def example_normalize_isbn_def is_digit_def)
  have c: "length ''9780140449136'' = 10 \<or> length ''9780140449136'' = 13" by simp
  have p: "luqum_parser example_utils ''isbn:(9780140449136)''
             = Inr (SearchField ''isbn'' (FieldGroup (Word ''9780140449136'')))"
    by (simp add: example_utils_def example_parser_def)
  show ?thesis
    using bare_isbn_fallback [OF a b c] a b p by simp
qed

text \<open>
  C4 (the code at the claim's own example): the claim says that a field whose resolved name is
  \<open>ddc\<close> or \<open>ddc_sort\<close> has the DDC normalizer applied to its child. The loop tests the name
  against \<open>dcc\<close> and \<open>dcc_sort\<close>: a \<open>ddc\<close> or \<open>ddc_sort\<close> field comes back unchanged whatever the
  normalizers are, while the misspelt name \<open>dcc\<close> is the one that reaches \<open>ddc_transform\<close>.
\<close>

theorem ddc_field_skips_normalizer:
  "transform_user_query u q (SearchField ''ddc'' (Word v)) = Inr (SearchField ''ddc'' (Word v))
   \<and> transform_user_query u q (SearchField ''ddc_sort'' (Word v))
       = Inr (SearchField ''ddc_sort'' (Word v))
   \<and> visit_user_node u (SearchField ''dcc'' (Word v))
       = fst (ddc_transform u (SearchField ''dcc'' (Word v)))"
proof -
  have m1: "field_name_map (lower ''ddc'') = None"
    by (simp add: field_name_map_def field_name_map_items_def lower_def lower_char_def)
  have m2: "field_name_map (lower ''ddc_sort'') = None"
    by (simp add: field_name_map_def field_name_map_items_def lower_def lower_char_def)
  have m3: "field_name_map (lower ''dcc'') = None"
    by (simp add: field_name_map_def field_name_map_items_def lower_def lower_char_def)
  have v1: "visit_user_node u (SearchField ''ddc'' (Word v)) = SearchField ''ddc'' (Word v)"
    unfolding visit_user_node_def using m1 by (simp add: domIff)
  have v2: "visit_user_node u (SearchField ''ddc_sort'' (Word v))
              = SearchField ''ddc_sort'' (Word v)"
    unfolding visit_user_node_def using m2 by (simp add: domIff)
  have v3: "visit_user_node u (SearchField ''dcc'' (Word v))
              = fst (ddc_transform u (SearchField ''dcc'' (Word v)))"
    unfolding visit_user_node_def using m3 by (simp add: domIff Let_def)
  show ?thesis
    unfolding transform_user_query_def using v1 v2 v3 by simp
qed


section \<open>The DDC normalizer on a wildcard\<close>

text \<open>
  C8 (the code at a \<open>Word\<close> that ends in the wildcard): the claim says that \<open>ddc_transform\<close>
  leaves in the node the normalized prefix with the \<open>*\<close> appended again. The branch returns
  that string and assigns nothing: the node after the call is the node before it.
\<close>

theorem ddc_transform_wildcard_returns_without_assigning:
  "ddc_transform u (SearchField name (Word (p @ ''*'')))
     = (SearchField name (Word (p @ ''*'')), Some (normalize_ddc_prefix u p @ ''*''))"
  by (simp add: endswith_def)


section \<open>The parent-child query composer\<close>

lemma contains_prefix: "startswith s sub \<Longrightarrow> contains sub s"
  by (cases s) (auto simp: startswith_def)

lemma contains_append: "contains sub (pre @ sub @ post)"
proof (induction pre)
  case Nil
  have "startswith (sub @ post) sub" by (simp add: startswith_def)
  then show ?case by (simp add: contains_prefix)
next
  case (Cons a pre)
  then show ?case by simp
qed

lemma no_parent_join_in_full_work_query: "\<not> contains ''{!parent'' full_work_query"
  by (simp add: full_work_query_def dq_def startswith_def)

lemma joined_q_differs: "joined_q \<noteq> full_work_query"
  by (simp add: joined_q_def full_work_query_def)

lemma collect_editions_fq_no_fq: "collect_editions_fq [(''workQuery'', w)] fq = Inr fq"
  by simp

lemma q_to_solr_params_shape:
  assumes "q_to_solr_params u q solr_fields = Inr ps"
  shows "\<exists>t. luqum_parser u q = Inr t \<and>
     ((has_solr_editions_enabled u \<and> ''editions:[subquery]'' \<in> set solr_fields
        \<and> (\<exists>ed_q. convert_work_query_to_edition_query u (to_str u t) = Inr ed_q
              \<and> ((ed_q \<noteq> [] \<and> (\<exists>fe fl. ps =
                     [(''workQuery'', to_str u t), (''editions.fq'', ''type:edition''),
                      (''edQuery'', fe), (''q'', joined_q),
                      (''editions.q'', ''({!terms f=_root_ v=$row.key}) AND '' @ fe),
                      (''editions.rows'', ''1''), (''editions.fl'', fl)]))
                 \<or> (ed_q = [] \<and> ps =
                     [(''workQuery'', to_str u t), (''editions.fq'', ''type:edition''),
                      (''q'', full_work_query)]))))
      \<or> (\<not> (has_solr_editions_enabled u \<and> ''editions:[subquery]'' \<in> set solr_fields)
          \<and> ps = [(''workQuery'', to_str u t), (''q'', full_work_query)]))"
proof (cases "luqum_parser u q")
  case (Inl e)
  then show ?thesis using assms by (simp add: q_to_solr_params_def)
next
  case (Inr t)
  show ?thesis
  proof (cases "has_solr_editions_enabled u \<and> ''editions:[subquery]'' \<in> set solr_fields")
    case False
    then have "ps = [(''workQuery'', to_str u t), (''q'', full_work_query)]"
      using assms Inr by (auto simp: q_to_solr_params_def emit_q_def)
    then show ?thesis using Inr False by simp
  next
    case True
    show ?thesis
    proof (cases "convert_work_query_to_edition_query u (to_str u t)")
      case (Inl e)
      then show ?thesis using assms Inr True by (simp add: q_to_solr_params_def Let_def)
    next
      case ed: (Inr ed_q)
      show ?thesis
      proof (cases "ed_q = []")
        case e: True
        have "ps = [(''workQuery'', to_str u t), (''editions.fq'', ''type:edition''),
                      (''q'', full_work_query)]"
          using assms Inr True ed e by (simp add: q_to_solr_params_def Let_def emit_q_def)
        then show ?thesis using Inr True ed e by simp
      next
        case e: False
        have "\<exists>fe fl. ps =
                     [(''workQuery'', to_str u t), (''editions.fq'', ''type:edition''),
                      (''edQuery'', fe), (''q'', joined_q),
                      (''editions.q'', ''({!terms f=_root_ v=$row.key}) AND '' @ fe),
                      (''editions.rows'', ''1''), (''editions.fl'', fl)]"
        proof -
          obtain fe where fe: "ps = emit_q u solr_fields
               ([(''workQuery'', to_str u t)] @ [(''editions.fq'', ''type:edition'')])
               (Some ed_q) [''type:edition''] fe"
            using assms Inr True ed by (auto simp: q_to_solr_params_def Let_def)
          have "ps = [(''workQuery'', to_str u t), (''editions.fq'', ''type:edition''),
                      (''edQuery'', fe), (''q'', joined_q),
                      (''editions.q'', ''({!terms f=_root_ v=$row.key}) AND '' @ fe),
                      (''editions.rows'', ''1''),
                      (''editions.fl'', join '','' (edition_fields_of u solr_fields))]"
            unfolding fe emit_q_def using e by simp
          then show ?thesis by blast
        qed
        then show ?thesis using Inr True ed e by simp
      qed
    qed
  qed
qed

lemma example_convert_title:
  "convert_work_query_to_edition_query example_utils ''title:Emma'' = Inr ''+title:Emma''"
  by (simp add: convert_work_query_to_edition_query_def example_utils_def example_parser_def
        convert_work_field_to_edition_field_def WORK_FIELD_TO_ED_FIELD_def)

lemma example_convert_subject:
  "convert_work_query_to_edition_query example_utils ''subject:love'' = Inr []"
  by (simp add: convert_work_query_to_edition_query_def example_utils_def example_parser_def
        convert_work_field_to_edition_field_def WORK_FIELD_TO_ED_FIELD_def startswith_def
        all_fields_def)

lemma example_params_title:
  "q_to_solr_params example_utils ''title:Emma'' [''editions:[subquery]'', ''key'']
     = Inr [(''workQuery'', ''title:Emma''), (''editions.fq'', ''type:edition''),
            (''edQuery'', full_ed_query_of ''eng'' ''+title:Emma''),
            (''q'', joined_q),
            (''editions.q'', ''({!terms f=_root_ v=$row.key}) AND ''
                               @ full_ed_query_of ''eng'' ''+title:Emma''),
            (''editions.rows'', ''1''), (''editions.fl'', ''key'')]"
proof -
  have p: "luqum_parser example_utils ''title:Emma'' = Inr (SearchField ''title'' (Word ''Emma''))"
    by (simp add: example_utils_def example_parser_def)
  have s: "to_str example_utils (SearchField ''title'' (Word ''Emma'')) = ''title:Emma''"
    by (simp add: example_utils_def)
  have m: "has_solr_editions_enabled example_utils" "web_ctx_lang example_utils = Some ''en''"
    "convert_iso_to_marc example_utils ''en'' = Some ''eng''"
    by (simp_all add: example_utils_def)
  have f: "edition_fields_of example_utils [''editions:[subquery]'', ''key''] = [''key'']"
    by (simp add: edition_fields_of_def example_utils_def startswith_def)
  show ?thesis
    unfolding q_to_solr_params_def p
    by (simp add: s m example_convert_title emit_q_def f Let_def del: collect_editions_fq.simps
          add: collect_editions_fq.simps)
qed

lemma example_params_subject:
  "q_to_solr_params example_utils ''subject:love'' [''editions:[subquery]'', ''key'']
     = Inr [(''workQuery'', ''subject:love''), (''editions.fq'', ''type:edition''),
            (''q'', full_work_query)]"
proof -
  have p: "luqum_parser example_utils ''subject:love''
             = Inr (SearchField ''subject'' (Word ''love''))"
    by (simp add: example_utils_def example_parser_def)
  have s: "to_str example_utils (SearchField ''subject'' (Word ''love'')) = ''subject:love''"
    by (simp add: example_utils_def)
  have m: "has_solr_editions_enabled example_utils" "web_ctx_lang example_utils = Some ''en''"
    "convert_iso_to_marc example_utils ''en'' = Some ''eng''"
    by (simp_all add: example_utils_def)
  show ?thesis
    unfolding q_to_solr_params_def p
    by (simp add: s m example_convert_subject emit_q_def Let_def)
qed

text \<open>
  C1: whenever \<open>q_to_solr_params\<close> emits the parent-child join filter (its \<open>q\<close> parameter
  has the \<open>{!parent ...}\<close> clause, or the \<open>edQuery\<close> parameter is there), the \<open>q\<close> parameter is
  the one string \<open>+<work query> +(<parent join clause> OR edition_count:0)\<close>: the allowance
  for works without editions is present, disjoined with the parent-join clause.
\<close>

theorem join_filter_keeps_editionless_works:
  assumes "q_to_solr_params u q solr_fields = Inr ps"
    and "(\<exists>v. (''q'', v) \<in> set ps \<and> contains ''{!parent'' v) \<or> ''edQuery'' \<in> fst ` set ps"
  shows "(''q'', joined_q) \<in> set ps
         \<and> (\<forall>v. (''q'', v) \<in> set ps \<longrightarrow>
               v = ''+'' @ full_work_query @ '' +('' @ parent_join_clause
                     @ ''OR edition_count:0'' @ '')''
               \<and> contains (parent_join_clause @ ''OR edition_count:0'') v
               \<and> contains ''OR edition_count:0'' v)"
proof -
  have j: "joined_q = (''+'' @ full_work_query @ '' +('') @ (parent_join_clause
                     @ ''OR edition_count:0'') @ '')''"
    by (simp add: joined_q_def editionless_clause_def)
  have j': "joined_q = (''+'' @ full_work_query @ '' +('' @ parent_join_clause) @
                     ''OR edition_count:0'' @ '')''"
    by (simp add: joined_q_def editionless_clause_def)
  have c1: "contains (parent_join_clause @ ''OR edition_count:0'') joined_q"
    unfolding j by (rule contains_append)
  have c2: "contains ''OR edition_count:0'' joined_q"
    unfolding j' by (rule contains_append)
  from q_to_solr_params_shape [OF assms(1)] obtain t where
    sh: "(has_solr_editions_enabled u \<and> ''editions:[subquery]'' \<in> set solr_fields
        \<and> (\<exists>ed_q. convert_work_query_to_edition_query u (to_str u t) = Inr ed_q
              \<and> ((ed_q \<noteq> [] \<and> (\<exists>fe fl. ps =
                     [(''workQuery'', to_str u t), (''editions.fq'', ''type:edition''),
                      (''edQuery'', fe), (''q'', joined_q),
                      (''editions.q'', ''({!terms f=_root_ v=$row.key}) AND '' @ fe),
                      (''editions.rows'', ''1''), (''editions.fl'', fl)]))
                 \<or> (ed_q = [] \<and> ps =
                     [(''workQuery'', to_str u t), (''editions.fq'', ''type:edition''),
                      (''q'', full_work_query)]))))
      \<or> (\<not> (has_solr_editions_enabled u \<and> ''editions:[subquery]'' \<in> set solr_fields)
          \<and> ps = [(''workQuery'', to_str u t), (''q'', full_work_query)])"
    by blast
  have plain: "ps = [(''workQuery'', to_str u t), (''editions.fq'', ''type:edition''),
                      (''q'', full_work_query)] \<or> ps = [(''workQuery'', to_str u t), (''q'', full_work_query)] \<Longrightarrow> False"
    using assms(2) no_parent_join_in_full_work_query by auto
  from sh plain obtain fe fl where ps: "ps =
                     [(''workQuery'', to_str u t), (''editions.fq'', ''type:edition''),
                      (''edQuery'', fe), (''q'', joined_q),
                      (''editions.q'', ''({!terms f=_root_ v=$row.key}) AND '' @ fe),
                      (''editions.rows'', ''1''), (''editions.fl'', fl)]"
    by blast
  have only: "\<forall>v. (''q'', v) \<in> set ps \<longrightarrow> v = joined_q"
    unfolding ps by simp
  have mem: "(''q'', joined_q) \<in> set ps" unfolding ps by simp
  show ?thesis using only mem c1 c2 j by (metis append.assoc)
qed

theorem join_filter_keeps_editionless_works_witness:
  "q_to_solr_params example_utils ''title:Emma'' [''editions:[subquery]'', ''key'']
     = Inr [(''workQuery'', ''title:Emma''), (''editions.fq'', ''type:edition''),
            (''edQuery'', full_ed_query_of ''eng'' ''+title:Emma''),
            (''q'', joined_q),
            (''editions.q'', ''({!terms f=_root_ v=$row.key}) AND ''
                               @ full_ed_query_of ''eng'' ''+title:Emma''),
            (''editions.rows'', ''1''), (''editions.fl'', ''key'')]
   \<and> contains ''OR edition_count:0'' joined_q"
proof -
  let ?ps = "[(''workQuery'', ''title:Emma''), (''editions.fq'', ''type:edition''),
            (''edQuery'', full_ed_query_of ''eng'' ''+title:Emma''),
            (''q'', joined_q),
            (''editions.q'', ''({!terms f=_root_ v=$row.key}) AND ''
                               @ full_ed_query_of ''eng'' ''+title:Emma''),
            (''editions.rows'', ''1''), (''editions.fl'', ''key'')]"
  have h: "(\<exists>v. (''q'', v) \<in> set ?ps \<and> contains ''{!parent'' v) \<or> ''edQuery'' \<in> fst ` set ?ps"
    by simp
  show ?thesis
    using join_filter_keeps_editionless_works [OF example_params_title h] example_params_title
    by simp
qed

text \<open>
  C10: when the \<open>fq\<close> parameters are scanned, the parameter list is the single \<open>workQuery\<close>
  entry, so the scan leaves \<open>editions_fq\<close> at the base filter \<open>type:edition\<close>, which is the only
  \<open>editions.fq\<close> parameter emitted in edition mode. The join branch (the \<open>q\<close> parameter with the
  parent join) is therefore taken exactly when the edition mode is on and the mapped edition
  query is not empty; otherwise \<open>q\<close> is the plain work query.
\<close>

theorem join_branch_iff_edition_query_nonempty:
  assumes "q_to_solr_params u q solr_fields = Inr ps"
  shows "\<exists>t. luqum_parser u q = Inr t
     \<and> collect_editions_fq [(''workQuery'', to_str u t)] [''type:edition'']
         = Inr [''type:edition'']
     \<and> ((''q'', joined_q) \<in> set ps \<longleftrightarrow>
          has_solr_editions_enabled u \<and> ''editions:[subquery]'' \<in> set solr_fields
          \<and> (\<exists>ed_q. convert_work_query_to_edition_query u (to_str u t) = Inr ed_q
                     \<and> ed_q \<noteq> []))
     \<and> ((''q'', full_work_query) \<in> set ps \<longleftrightarrow> (''q'', joined_q) \<notin> set ps)
     \<and> map snd (filter (\<lambda>p. fst p = ''editions.fq'') ps)
         = (if has_solr_editions_enabled u \<and> ''editions:[subquery]'' \<in> set solr_fields
            then [''type:edition''] else [])"
proof -
  from q_to_solr_params_shape [OF assms] obtain t where
    p: "luqum_parser u q = Inr t" and
    sh: "(has_solr_editions_enabled u \<and> ''editions:[subquery]'' \<in> set solr_fields
        \<and> (\<exists>ed_q. convert_work_query_to_edition_query u (to_str u t) = Inr ed_q
              \<and> ((ed_q \<noteq> [] \<and> (\<exists>fe fl. ps =
                     [(''workQuery'', to_str u t), (''editions.fq'', ''type:edition''),
                      (''edQuery'', fe), (''q'', joined_q),
                      (''editions.q'', ''({!terms f=_root_ v=$row.key}) AND '' @ fe),
                      (''editions.rows'', ''1''), (''editions.fl'', fl)]))
                 \<or> (ed_q = [] \<and> ps =
                     [(''workQuery'', to_str u t), (''editions.fq'', ''type:edition''),
                      (''q'', full_work_query)]))))
      \<or> (\<not> (has_solr_editions_enabled u \<and> ''editions:[subquery]'' \<in> set solr_fields)
          \<and> ps = [(''workQuery'', to_str u t), (''q'', full_work_query)])"
    by blast
  have c: "collect_editions_fq [(''workQuery'', to_str u t)] [''type:edition'']
         = Inr [''type:edition'']"
    by (rule collect_editions_fq_no_fq)
  have d: "joined_q \<noteq> full_work_query" by (rule joined_q_differs)
  let ?mode = "has_solr_editions_enabled u \<and> ''editions:[subquery]'' \<in> set solr_fields"
  consider (join) ed_q fe fl where "?mode"
      "convert_work_query_to_edition_query u (to_str u t) = Inr ed_q" "ed_q \<noteq> []"
      "ps = [(''workQuery'', to_str u t), (''editions.fq'', ''type:edition''),
                      (''edQuery'', fe), (''q'', joined_q),
                      (''editions.q'', ''({!terms f=_root_ v=$row.key}) AND '' @ fe),
                      (''editions.rows'', ''1''), (''editions.fl'', fl)]"
    | (empty) "?mode" "convert_work_query_to_edition_query u (to_str u t) = Inr []"
      "ps = [(''workQuery'', to_str u t), (''editions.fq'', ''type:edition''),
                      (''q'', full_work_query)]"
    | (off) "\<not> ?mode" "ps = [(''workQuery'', to_str u t), (''q'', full_work_query)]"
    using sh by blast
  then have rest: "((''q'', joined_q) \<in> set ps \<longleftrightarrow>
          ?mode
          \<and> (\<exists>ed_q. convert_work_query_to_edition_query u (to_str u t) = Inr ed_q
                     \<and> ed_q \<noteq> []))
     \<and> ((''q'', full_work_query) \<in> set ps \<longleftrightarrow> (''q'', joined_q) \<notin> set ps)
     \<and> map snd (filter (\<lambda>p. fst p = ''editions.fq'') ps)
         = (if ?mode then [''type:edition''] else [])"
  proof cases
    case join
    show ?thesis unfolding join(4) using join(1,2,3) d by simp
  next
    case empty
    show ?thesis unfolding empty(3) using empty(1,2) d by simp
  next
    case off
    show ?thesis unfolding off(2) using off(1) d by auto
  qed
  show ?thesis using p c rest by blast
qed

theorem join_branch_iff_edition_query_nonempty_witness:
  "q_to_solr_params example_utils ''subject:love'' [''editions:[subquery]'', ''key'']
     = Inr [(''workQuery'', ''subject:love''), (''editions.fq'', ''type:edition''),
            (''q'', full_work_query)]
   \<and> convert_work_query_to_edition_query example_utils ''subject:love'' = Inr []
   \<and> (''q'', joined_q) \<notin> set [(''workQuery'', ''subject:love''),
                                 (''editions.fq'', ''type:edition''), (''q'', full_work_query)]"
proof -
  have p: "luqum_parser example_utils ''subject:love''
             = Inr (SearchField ''subject'' (Word ''love''))"
    by (simp add: example_utils_def example_parser_def)
  have s: "to_str example_utils (SearchField ''subject'' (Word ''love'')) = ''subject:love''"
    by (simp add: example_utils_def)
  show ?thesis
    using join_branch_iff_edition_query_nonempty [OF example_params_subject]
      example_params_subject example_convert_subject p s
    by auto
qed


section \<open>The edition field mapper\<close>

lemma convert_unknown:
  "unknown_field name \<Longrightarrow>
     convert_work_field_to_edition_field name = Inl (ValueError (''Unknown field: '' @ name))"
  by (simp add: unknown_field_def convert_work_field_to_edition_field_def)

lemma table_values_nonempty:
  "map_of WORK_FIELD_TO_ED_FIELD name = Some new \<Longrightarrow> new \<noteq> []"
  by (drule map_of_SomeD) (auto simp: WORK_FIELD_TO_ED_FIELD_def)

lemma convert_work_only:
  "work_only_field name \<Longrightarrow> convert_work_field_to_edition_field name = Inr None"
  by (simp add: work_only_field_def convert_work_field_to_edition_field_def)

lemma convert_kept:
  assumes "name \<noteq> ''*''" "\<not> work_only_field name" "\<not> unknown_field name"
  shows "\<exists>new. convert_work_field_to_edition_field name = Inr (Some new) \<and> new \<noteq> []"
proof (cases "map_of WORK_FIELD_TO_ED_FIELD name")
  case (Some new)
  then show ?thesis
    using table_values_nonempty [OF Some] by (simp add: convert_work_field_to_edition_field_def)
next
  case None
  then have "startswith name ''id_''"
    using assms by (auto simp: work_only_field_def unknown_field_def)
  then show ?thesis
    using None by (auto simp: convert_work_field_to_edition_field_def startswith_def)
qed

lemma star_is_kept: "\<not> work_only_field ''*'' \<and> \<not> unknown_field ''*''"
  by (simp add: work_only_field_def unknown_field_def)

lemma not_both: "work_only_field name \<Longrightarrow> \<not> unknown_field name"
  by (auto simp: work_only_field_def unknown_field_def)

lemma find_append_first:
  "find P (xs @ ys) = (case find P xs of Some x \<Rightarrow> Some x | None \<Rightarrow> find P ys)"
  by (induction xs) auto

lemma find_None_list_ex: "find P xs = None \<longleftrightarrow> \<not> list_ex P xs"
  by (induction xs) auto

lemma luqum_remove_child_cases:
  "luqum_remove_child ps = Inl EmptyTreeError \<or> luqum_remove_child ps = Inr ()"
  by (induction ps rule: luqum_remove_child.induct) auto

lemma remove_nth_middle: "remove_nth (length kept) (kept @ c # rest) = kept @ rest"
  by (simp add: remove_nth_def)

lemma frame_alone:
  assumes "children (mk (kept @ c # rest)) = kept @ c # rest"
  shows "luqum_remove_child ((mk (kept @ c # rest), length kept) # ps) = Inl EmptyTreeError
           \<longleftrightarrow> kept = [] \<and> rest = [] \<and> luqum_remove_child ps = Inl EmptyTreeError"
  using assms by (auto simp: remove_nth_middle)

lemma find_concat_None:
  "\<forall>c \<in> set cs. find P (f c) = None \<Longrightarrow> find P (concat (map f cs)) = None"
  by (induction cs) (auto simp: find_append_first)

lemma vanishes_no_unknown:
  "vanishes t \<Longrightarrow> find unknown_field (field_names t) = None"
proof (induction t)
  case (SearchField name e)
  then show ?case
    by (auto simp: find_None_list_ex not_both split: if_splits)
next
  case (AndOperation cs)
  then show ?case by (auto simp: list_all_iff intro: find_concat_None)
next
  case (OrOperation cs)
  then show ?case by (auto simp: list_all_iff intro: find_concat_None)
next
  case (UnknownOperation cs)
  then show ?case by (auto simp: list_all_iff intro: find_concat_None)
qed simp_all

lemma single_child_rebuild:
  "xs \<noteq> [] \<Longrightarrow> length xs \<le> Suc 0 \<Longrightarrow> [hd xs] = xs"
  by (cases xs) auto

lemma outcome_of_Inl: "outcome_of (Inl err) = (if err = EmptyTreeError then Emptied else Raised err)"
  by (cases err) simp_all

lemma outcome_of_Raised: "outcome_of r = Raised x \<Longrightarrow> r = Inl x"
  by (cases r rule: outcome_of.cases) simp_all

lemma outcome_of_Emptied: "outcome_of r = Emptied \<Longrightarrow> r = Inl EmptyTreeError"
  by (cases r rule: outcome_of.cases) simp_all

lemma outcome_of_Removed: "outcome_of r = Removed \<Longrightarrow> r = Inr None"
  by (cases r rule: outcome_of.cases) simp_all

lemma outcome_of_Kept: "outcome_of r = Kept \<Longrightarrow> \<exists>t. r = Inr (Some t)"
  by (cases r rule: outcome_of.cases) simp_all

lemma children_outcome_single: "children_outcome alone True [e] = loop_outcome alone e"
  by (simp add: children_outcome_def loop_outcome_def)

lemma children_outcome_end:
  "children_outcome alone k [] = (if k then Removed else Kept)"
  by (simp add: children_outcome_def)

lemma co_step_emptied:
  "alone \<Longrightarrow> k \<Longrightarrow> emptied c \<Longrightarrow> children_outcome alone k [c] = Emptied"
  by (simp add: children_outcome_def)

lemma co_step_raised:
  assumes "\<not> (alone \<and> k \<and> rest = [] \<and> emptied c)"
    and "find unknown_field (field_names c) = Some f"
  shows "children_outcome alone k (c # rest) = Raised (ValueError (''Unknown field: '' @ f))"
proof -
  have v: "\<not> vanishes c" using assms(2) vanishes_no_unknown [of c] by auto
  have "\<not> (alone \<and> k \<and> emptied_children (c # rest))"
    using assms(1) v by (cases rest) auto
  then show ?thesis
    using assms(2) by (simp add: children_outcome_def find_append_first)
qed

lemma co_step_removed:
  assumes "\<not> (alone \<and> k \<and> rest = [] \<and> emptied c)"
    and "find unknown_field (field_names c) = None" and "vanishes c"
  shows "children_outcome alone k (c # rest) = children_outcome alone k rest"
proof (cases rest)
  case Nil
  then show ?thesis using assms by (auto simp: children_outcome_def)
next
  case (Cons d ds)
  then show ?thesis using assms by (auto simp: children_outcome_def find_append_first)
qed

lemma co_step_kept:
  assumes "\<not> (alone \<and> k \<and> rest = [] \<and> emptied c)"
    and "find unknown_field (field_names c) = None" and "\<not> vanishes c"
  shows "children_outcome alone k (c # rest) = children_outcome alone False rest"
proof (cases rest)
  case Nil
  then show ?thesis using assms by (auto simp: children_outcome_def)
next
  case (Cons d ds)
  then show ?thesis using assms by (auto simp: children_outcome_def find_append_first)
qed

lemma loop_outcome_cases:
  "loop_outcome alone c = Emptied \<Longrightarrow> alone \<and> emptied c"
  "loop_outcome alone c = Raised x \<Longrightarrow>
     \<not> (alone \<and> emptied c)
     \<and> (\<exists>f. find unknown_field (field_names c) = Some f
              \<and> x = ValueError (''Unknown field: '' @ f))"
  "loop_outcome alone c = Removed \<Longrightarrow>
     \<not> (alone \<and> emptied c) \<and> find unknown_field (field_names c) = None \<and> vanishes c"
  "loop_outcome alone c = Kept \<Longrightarrow>
     \<not> (alone \<and> emptied c) \<and> find unknown_field (field_names c) = None \<and> \<not> vanishes c"
  by (auto simp: loop_outcome_def split: if_splits option.splits)

lemma loop_outcome_kept_field:
  assumes "\<not> work_only_field name" "\<not> unknown_field name"
  shows "loop_outcome alone (SearchField name e) = loop_outcome alone e"
  using assms by (simp add: loop_outcome_def)

lemma loop_outcome_unknown_field:
  assumes "unknown_field name"
  shows "loop_outcome alone (SearchField name e) = Raised (ValueError (''Unknown field: '' @ name))"
  using assms not_both [of name] by (auto simp: loop_outcome_def)

lemma loop_outcome_work_only_field:
  assumes "work_only_field name"
  shows "loop_outcome alone (SearchField name e) =
           (if alone then Emptied
            else case find unknown_field (field_names e) of
                   Some f \<Rightarrow> Raised (ValueError (''Unknown field: '' @ f))
                 | None \<Rightarrow> Removed)"
  using assms not_both [of name]
  by (auto simp: loop_outcome_def find_None_list_ex split: option.splits)

lemma loop_outcome_single_child:
  "loop_outcome alone (Group e) = loop_outcome alone e"
  "loop_outcome alone (FieldGroup e) = loop_outcome alone e"
  "loop_outcome alone (Not e) = loop_outcome alone e"
  "loop_outcome alone (Prohibit e) = loop_outcome alone e"
  "loop_outcome alone (Plus e) = loop_outcome alone e"
  "loop_outcome alone (Boost e f) = loop_outcome alone e"
  by (simp_all add: loop_outcome_def)

lemma list_all_vanishes_emptied_children:
  "cs \<noteq> [] \<Longrightarrow> list_all vanishes cs \<Longrightarrow> find unknown_field (concat (map field_names cs)) = None"
  by (auto simp: list_all_iff intro: find_concat_None vanishes_no_unknown)

lemma loop_outcome_operation:
  "cs \<noteq> [] \<Longrightarrow> loop_outcome alone (AndOperation cs) = children_outcome alone True cs"
  "cs \<noteq> [] \<Longrightarrow> loop_outcome alone (OrOperation cs) = children_outcome alone True cs"
  "cs \<noteq> [] \<Longrightarrow> loop_outcome alone (UnknownOperation cs) = children_outcome alone True cs"
  by (simp_all add: loop_outcome_def children_outcome_def)

lemma loop_outcome_empty_operation:
  "loop_outcome alone (AndOperation []) = Kept"
  "loop_outcome alone (OrOperation []) = Kept"
  "loop_outcome alone (UnknownOperation []) = Kept"
  by (simp_all add: loop_outcome_def)

lemma loop_outcome_leaf:
  "loop_outcome alone (Word v) = Kept"
  "loop_outcome alone (Phrase v) = Kept"
  "loop_outcome alone (Range l h il ih) = Kept"
  by (simp_all add: loop_outcome_def)

lemma single_child_frame:
  assumes "\<And>x. children (mk [x]) = [x]" "\<And>xs. mk xs = mk [hd xs]"
  shows "\<forall>xs. xs \<noteq> [] \<longrightarrow> length xs \<le> length ([]::item list) + length [e]
            \<longrightarrow> children (mk xs) = xs"
proof (intro allI impI)
  fix xs :: "item list"
  assume a: "xs \<noteq> []" and b: "length xs \<le> length ([]::item list) + length [e]"
  obtain x where x: "xs = [x]" using a b by (cases xs) auto
  have "children (mk xs) = children (mk [hd xs])"
    by (rule arg_cong [where f = children]) (rule assms(2))
  also have "\<dots> = [hd xs]" by (rule assms(1))
  also have "\<dots> = xs" unfolding x by simp
  finally show "children (mk xs) = xs" .
qed

lemma loop_outcome_exact:
  "outcome_of (convert_node ps t)
     = loop_outcome (luqum_remove_child ps = Inl EmptyTreeError) t"
  "(\<forall>xs. xs \<noteq> [] \<longrightarrow> length xs \<le> length kept + length rest \<longrightarrow> children (mk xs) = xs) \<longrightarrow>
     outcome_of (convert_children ps mk kept rest)
       = children_outcome (luqum_remove_child ps = Inl EmptyTreeError) (kept = []) rest"
proof (induction ps t and ps mk kept rest rule: convert_node_convert_children.induct)
  case (1 ps name e)
  let ?alone = "luqum_remove_child ps = Inl EmptyTreeError"
  show ?case
  proof (cases "name = ''*''")
    case True
    have fr: "\<forall>xs. xs \<noteq> [] \<longrightarrow> length xs \<le> length ([]::item list) + length [e]
            \<longrightarrow> children ((\<lambda>cs. SearchField name (hd cs)) xs) = xs"
      by (rule single_child_frame) simp_all
    have eq: "convert_node ps (SearchField name e)
                = convert_children ps (\<lambda>cs. SearchField name (hd cs)) [] [e]"
      using True by (simp del: convert_children.simps)
    have "outcome_of (convert_children ps (\<lambda>cs. SearchField name (hd cs)) [] [e])
            = children_outcome ?alone True [e]"
      using 1(3) True fr by (simp del: convert_children.simps)
    then show ?thesis
      unfolding eq using True star_is_kept
      by (simp add: children_outcome_single loop_outcome_kept_field del: convert_children.simps)
  next
    case n: False
    show ?thesis
    proof (cases "unknown_field name")
      case True
      then show ?thesis
        using n convert_unknown [OF True] by (simp add: loop_outcome_unknown_field)
    next
      case nu: False
      show ?thesis
      proof (cases "work_only_field name")
        case True
        have c: "convert_work_field_to_edition_field name = Inr None"
          using True by (rule convert_work_only)
        show ?thesis
        proof (cases "luqum_remove_child ps")
          case (Inl err)
          then have a: "?alone" using luqum_remove_child_cases [of ps] by auto
          then show ?thesis
            using n c by (simp add: loop_outcome_work_only_field [OF True])
        next
          case (Inr x)
          have fr: "\<forall>xs. xs \<noteq> [] \<longrightarrow> length xs \<le> length ([]::item list) + length [e]
            \<longrightarrow> children ((\<lambda>cs. SearchField name (hd cs)) xs) = xs"
            by (rule single_child_frame) simp_all
          have t: "\<not> truthy None" by simp
          have ih: "outcome_of (convert_children ps (\<lambda>cs. SearchField name (hd cs)) [] [e])
                      = loop_outcome False e"
            using 1(2) [OF n c t Inr] fr Inr
            by (simp add: children_outcome_single del: convert_children.simps)
          have eq: "convert_node ps (SearchField name e)
                      = (case convert_children ps (\<lambda>cs. SearchField name (hd cs)) [] [e] of
                           Inl err \<Rightarrow> Inl err | Inr _ \<Rightarrow> Inr None)"
            using n c Inr by (simp del: convert_children.simps)
          show ?thesis
          proof (cases "find unknown_field (field_names e)")
            case None
            then have "loop_outcome False e = Removed \<or> loop_outcome False e = Kept"
              by (simp add: loop_outcome_def)
            then have "outcome_of (convert_children ps (\<lambda>cs. SearchField name (hd cs)) [] [e])
                         = Removed
                       \<or> outcome_of (convert_children ps (\<lambda>cs. SearchField name (hd cs)) [] [e])
                         = Kept"
              unfolding ih .
            then have "\<exists>y. convert_children ps (\<lambda>cs. SearchField name (hd cs)) [] [e] = Inr y"
              by (auto dest: outcome_of_Removed outcome_of_Kept simp del: convert_children.simps)
            then show ?thesis
              unfolding eq using None Inr
              by (auto simp: loop_outcome_work_only_field [OF True] simp del: convert_children.simps)
          next
            case (Some f)
            then have "loop_outcome False e = Raised (ValueError (''Unknown field: '' @ f))"
              by (simp add: loop_outcome_def)
            then have "outcome_of (convert_children ps (\<lambda>cs. SearchField name (hd cs)) [] [e])
                         = Raised (ValueError (''Unknown field: '' @ f))"
              unfolding ih .
            then have "convert_children ps (\<lambda>cs. SearchField name (hd cs)) [] [e]
                         = Inl (ValueError (''Unknown field: '' @ f))"
              by (rule outcome_of_Raised)
            then show ?thesis
              unfolding eq using Some Inr
              by (simp add: loop_outcome_work_only_field [OF True] del: convert_children.simps)
          qed
        qed
      next
        case nw: False
        obtain new where c: "convert_work_field_to_edition_field name = Inr (Some new)"
          and ne: "new \<noteq> []"
          using convert_kept [OF n nw nu] by blast
        define name' where "name' = (if parent_is_negation ps then the (Some new)
                                     else ''+'' @ the (Some new))"
        have t: "truthy (Some new)" using ne by simp
        have fr: "\<forall>xs. xs \<noteq> [] \<longrightarrow> length xs \<le> length ([]::item list) + length [e]
            \<longrightarrow> children ((\<lambda>cs. SearchField name' (hd cs)) xs) = xs"
          by (rule single_child_frame) simp_all
        have eq: "convert_node ps (SearchField name e)
                    = convert_children ps (\<lambda>cs. SearchField name' (hd cs)) [] [e]"
          using n c ne by (simp add: Let_def name'_def del: convert_children.simps)
        have "outcome_of (convert_children ps (\<lambda>cs. SearchField name' (hd cs)) [] [e])
                = children_outcome ?alone True [e]"
          using 1(1) [OF n c t name'_def] fr by (simp del: convert_children.simps)
        then show ?thesis
          unfolding eq
          by (simp add: children_outcome_single loop_outcome_kept_field [OF nw nu]
                del: convert_children.simps)
      qed
    qed
  qed
next
  case (2 ps v)
  show ?case by (simp add: loop_outcome_leaf)
next
  case (3 ps v)
  show ?case by (simp add: loop_outcome_leaf)
next
  case (4 ps l h il ih)
  show ?case by (simp add: loop_outcome_leaf)
next
  case (5 ps e)
  have fr: "\<forall>xs. xs \<noteq> [] \<longrightarrow> length xs \<le> length ([]::item list) + length [e]
            \<longrightarrow> children ((\<lambda>cs. Group (hd cs)) xs) = xs"
    by (rule single_child_frame) simp_all
  show ?case
    using 5 fr
    by (simp add: children_outcome_single loop_outcome_single_child del: convert_children.simps)
next
  case (6 ps e)
  have fr: "\<forall>xs. xs \<noteq> [] \<longrightarrow> length xs \<le> length ([]::item list) + length [e]
            \<longrightarrow> children ((\<lambda>cs. FieldGroup (hd cs)) xs) = xs"
    by (rule single_child_frame) simp_all
  show ?case
    using 6 fr
    by (simp add: children_outcome_single loop_outcome_single_child del: convert_children.simps)
next
  case (7 ps e)
  have fr: "\<forall>xs. xs \<noteq> [] \<longrightarrow> length xs \<le> length ([]::item list) + length [e]
            \<longrightarrow> children ((\<lambda>cs. Not (hd cs)) xs) = xs"
    by (rule single_child_frame) simp_all
  show ?case
    using 7 fr
    by (simp add: children_outcome_single loop_outcome_single_child del: convert_children.simps)
next
  case (8 ps e)
  have fr: "\<forall>xs. xs \<noteq> [] \<longrightarrow> length xs \<le> length ([]::item list) + length [e]
            \<longrightarrow> children ((\<lambda>cs. Prohibit (hd cs)) xs) = xs"
    by (rule single_child_frame) simp_all
  show ?case
    using 8 fr
    by (simp add: children_outcome_single loop_outcome_single_child del: convert_children.simps)
next
  case (9 ps e)
  have fr: "\<forall>xs. xs \<noteq> [] \<longrightarrow> length xs \<le> length ([]::item list) + length [e]
            \<longrightarrow> children ((\<lambda>cs. Plus (hd cs)) xs) = xs"
    by (rule single_child_frame) simp_all
  show ?case
    using 9 fr
    by (simp add: children_outcome_single loop_outcome_single_child del: convert_children.simps)
next
  case (10 ps e f)
  have fr: "\<forall>xs. xs \<noteq> [] \<longrightarrow> length xs \<le> length ([]::item list) + length [e]
            \<longrightarrow> children ((\<lambda>cs. Boost (hd cs) f) xs) = xs"
    by (rule single_child_frame) simp_all
  show ?case
    using 10 fr
    by (simp add: children_outcome_single loop_outcome_single_child del: convert_children.simps)
next
  case (11 ps cs)
  show ?case
  proof (cases "cs = []")
    case True
    then show ?thesis by (simp add: loop_outcome_empty_operation)
  next
    case False
    then show ?thesis
      using 11 by (simp add: loop_outcome_operation del: convert_children.simps)
  qed
next
  case (12 ps cs)
  show ?case
  proof (cases "cs = []")
    case True
    then show ?thesis by (simp add: loop_outcome_empty_operation)
  next
    case False
    then show ?thesis
      using 12 by (simp add: loop_outcome_operation del: convert_children.simps)
  qed
next
  case (13 ps cs)
  show ?case
  proof (cases "cs = []")
    case True
    then show ?thesis by (simp add: loop_outcome_empty_operation)
  next
    case False
    then show ?thesis
      using 13 by (simp add: loop_outcome_operation del: convert_children.simps)
  qed
next
  case (14 ps mk kept)
  show ?case by (simp add: children_outcome_end)
next
  case (15 ps mk kept c rest)
  let ?alone = "luqum_remove_child ps = Inl EmptyTreeError"
  let ?frame = "(mk (kept @ c # rest), length kept) # ps"
  show ?case
  proof
    assume H: "\<forall>xs. xs \<noteq> [] \<longrightarrow> length xs \<le> length kept + length (c # rest)
                 \<longrightarrow> children (mk xs) = xs"
    have ch: "children (mk (kept @ c # rest)) = kept @ c # rest"
      using H by simp
    have al: "luqum_remove_child ?frame = Inl EmptyTreeError
                \<longleftrightarrow> kept = [] \<and> rest = [] \<and> ?alone"
      using ch by (rule frame_alone)
    have node: "outcome_of (convert_node ?frame c)
                  = loop_outcome (kept = [] \<and> rest = [] \<and> ?alone) c"
      using 15(1) al by simp
    show "outcome_of (convert_children ps mk kept (c # rest))
            = children_outcome ?alone (kept = []) (c # rest)"
    proof (cases "convert_node ?frame c")
      case (Inl err)
      have step: "convert_children ps mk kept (c # rest) = Inl err" using Inl by simp
      show ?thesis
      proof (cases "err = EmptyTreeError")
        case True
        then have "loop_outcome (kept = [] \<and> rest = [] \<and> ?alone) c = Emptied"
          using node Inl by simp
        then have "kept = [] \<and> rest = [] \<and> ?alone \<and> emptied c"
          using loop_outcome_cases(1) by blast
        then show ?thesis
          unfolding step using True co_step_emptied [of ?alone "kept = []" c] by simp
      next
        case False
        then have "loop_outcome (kept = [] \<and> rest = [] \<and> ?alone) c = Raised err"
          using node Inl by (simp add: outcome_of_Inl)
        then obtain f where f: "\<not> ((kept = [] \<and> rest = [] \<and> ?alone) \<and> emptied c)"
            "find unknown_field (field_names c) = Some f"
            "err = ValueError (''Unknown field: '' @ f)"
          using loop_outcome_cases(2) by blast
        have "children_outcome ?alone (kept = []) (c # rest)
                = Raised (ValueError (''Unknown field: '' @ f))"
          using f(1) by (intro co_step_raised [OF _ f(2)]) blast
        then show ?thesis unfolding step using f(3) by simp
      qed
    next
      case (Inr r)
      show ?thesis
      proof (cases r)
        case None
        have step: "convert_children ps mk kept (c # rest) = convert_children ps mk kept rest"
          using Inr None by simp
        have "loop_outcome (kept = [] \<and> rest = [] \<and> ?alone) c = Removed"
          using node Inr None by simp
        then have f: "\<not> ((kept = [] \<and> rest = [] \<and> ?alone) \<and> emptied c)"
            "find unknown_field (field_names c) = None" "vanishes c"
          using loop_outcome_cases(3) by blast+
        have H': "\<forall>xs. xs \<noteq> [] \<longrightarrow> length xs \<le> length kept + length rest
                 \<longrightarrow> children (mk xs) = xs"
          using H by simp
        have ih: "outcome_of (convert_children ps mk kept rest)
                    = children_outcome ?alone (kept = []) rest"
          using 15(2) [OF Inr None] H' by blast
        have "children_outcome ?alone (kept = []) (c # rest)
                = children_outcome ?alone (kept = []) rest"
          using f(1) by (intro co_step_removed [OF _ f(2) f(3)]) blast
        then show ?thesis unfolding step using ih by simp
      next
        case (Some c')
        have step: "convert_children ps mk kept (c # rest)
                      = convert_children ps mk (kept @ [c']) rest"
          using Inr Some by simp
        have "loop_outcome (kept = [] \<and> rest = [] \<and> ?alone) c = Kept"
          using node Inr Some by simp
        then have f: "\<not> ((kept = [] \<and> rest = [] \<and> ?alone) \<and> emptied c)"
            "find unknown_field (field_names c) = None" "\<not> vanishes c"
          using loop_outcome_cases(4) by blast+
        have H': "\<forall>xs. xs \<noteq> [] \<longrightarrow> length xs \<le> length (kept @ [c']) + length rest
                 \<longrightarrow> children (mk xs) = xs"
          using H by simp
        have ih: "outcome_of (convert_children ps mk (kept @ [c']) rest)
                    = children_outcome ?alone False rest"
          using 15(3) [OF Inr Some] H' by simp
        have "children_outcome ?alone (kept = []) (c # rest)
                = children_outcome ?alone False rest"
          using f(1) by (intro co_step_kept [OF _ f(2) f(3)]) blast
        then show ?thesis unfolding step using ih by simp
      qed
    qed
  qed
qed

lemma emptied_has_work_only_field:
  "emptied t \<longrightarrow> list_ex work_only_field (field_names t)"
  "emptied_children cs \<longrightarrow> list_ex work_only_field (concat (map field_names cs))"
  by (induction t and cs rule: emptied_emptied_children.induct) (auto split: if_splits)

text \<open>
  C2 (amended): when the work query has a field-scoped node whose name is not the match-all
  \<open>*\<close>, is not in the rename table, has no \<open>id_\<close> prefix and is in neither field set, the
  edition field mapping raises \<open>ValueError: Unknown field\<close> for the first such name in the order
  of the traversal, with one exception: when the loop empties the whole tree (it reaches a
  work-only field when everything before it has been removed and nothing comes after it), the
  mapping returns the empty string. A tree without a work-only field is never emptied.
\<close>

theorem unknown_field_raises_unless_tree_emptied:
  assumes "luqum_parser u work_query = Inr q_tree"
    and "find unknown_field (field_names q_tree) = Some f"
  shows "convert_work_query_to_edition_query u work_query
           = (if emptied q_tree then Inr []
              else Inl (ValueError (''Unknown field: '' @ f)))
         \<and> ((\<forall>g \<in> set (field_names q_tree). \<not> work_only_field g) \<longrightarrow> \<not> emptied q_tree)"
proof -
  have o: "outcome_of (convert_node [] q_tree) = loop_outcome True q_tree"
    using loop_outcome_exact(1) [of "[]" q_tree] by simp
  have a: "convert_work_query_to_edition_query u work_query
           = (if emptied q_tree then Inr []
              else Inl (ValueError (''Unknown field: '' @ f)))"
  proof (cases "emptied q_tree")
    case True
    then have "outcome_of (convert_node [] q_tree) = Emptied"
      unfolding o by (simp add: loop_outcome_def)
    then have "convert_node [] q_tree = Inl EmptyTreeError" by (rule outcome_of_Emptied)
    then show ?thesis
      using True assms(1) by (simp add: convert_work_query_to_edition_query_def)
  next
    case False
    then have "outcome_of (convert_node [] q_tree)
                 = Raised (ValueError (''Unknown field: '' @ f))"
      unfolding o using assms(2) by (simp add: loop_outcome_def)
    then have "convert_node [] q_tree = Inl (ValueError (''Unknown field: '' @ f))"
      by (rule outcome_of_Raised)
    then show ?thesis
      using False assms(1) by (simp add: convert_work_query_to_edition_query_def)
  qed
  have b: "(\<forall>g \<in> set (field_names q_tree). \<not> work_only_field g) \<longrightarrow> \<not> emptied q_tree"
    using emptied_has_work_only_field(1) [of q_tree] by (auto simp: list_ex_iff)
  show ?thesis using a b by blast
qed

text \<open>
  C2 (as the claim states it, refuted): a field name outside the rename table, without the
  \<open>id_\<close> prefix and absent from both field sets always makes the edition field mapping raise.
  In \<open>subject:(foo:bar)\<close> the root is a work-only field: its removal empties the tree and the
  mapping returns the empty string before the unknown \<open>foo\<close> is visited.
\<close>

theorem unknown_field_not_always_raised:
  "unknown_field ''foo''
   \<and> luqum_parser example_utils ''subject:(foo:bar)''
        = Inr (SearchField ''subject'' (FieldGroup (SearchField ''foo'' (Word ''bar''))))
   \<and> convert_work_query_to_edition_query example_utils ''subject:(foo:bar)'' = Inr []"
  by (simp add: WORK_FIELD_TO_ED_FIELD_def startswith_def all_fields_def facet_fields_def
        convert_work_query_to_edition_query_def example_utils_def example_parser_def
        unknown_field_def convert_work_field_to_edition_field_def)

theorem unknown_field_raises_unless_tree_emptied_witness:
  "luqum_parser example_utils ''title:Emma subject:love foo:bar''
     = Inr (UnknownOperation [SearchField ''title'' (Word ''Emma''),
                              SearchField ''subject'' (Word ''love''),
                              SearchField ''foo'' (Word ''bar'')])
   \<and> work_only_field ''subject''
   \<and> find unknown_field [''title'', ''subject'', ''foo''] = Some ''foo''
   \<and> convert_work_query_to_edition_query example_utils ''title:Emma subject:love foo:bar''
       = Inl (ValueError ''Unknown field: foo'')"
proof -
  let ?t = "UnknownOperation [SearchField ''title'' (Word ''Emma''),
                              SearchField ''subject'' (Word ''love''),
                              SearchField ''foo'' (Word ''bar'')]"
  have p: "luqum_parser example_utils ''title:Emma subject:love foo:bar'' = Inr ?t"
    by (simp add: example_utils_def example_parser_def)
  have f: "unknown_field ''foo''"
    by (simp add: unknown_field_def WORK_FIELD_TO_ED_FIELD_def startswith_def all_fields_def
          facet_fields_def)
  have t: "\<not> unknown_field ''title''" "\<not> work_only_field ''title''"
    by (simp_all add: unknown_field_def work_only_field_def WORK_FIELD_TO_ED_FIELD_def)
  have s: "\<not> unknown_field ''subject''" "work_only_field ''subject''"
    by (simp_all add: unknown_field_def work_only_field_def WORK_FIELD_TO_ED_FIELD_def
          all_fields_def startswith_def)
  have h: "find unknown_field (field_names ?t) = Some ''foo''" using f t s by simp
  have e: "\<not> emptied ?t" using t by simp
  show ?thesis
    using unknown_field_raises_unless_tree_emptied [OF p h] p s(2) h e by simp
qed

lemma convert_single_child:
  "convert_children ps mk [] [e] = Inr (Some t) \<Longrightarrow> \<exists>e'. t = mk [e']"
  by (auto split: sum.splits option.splits)

text \<open>
  C6 (amended): when the loop visits a field-scoped node whose name has a rename in
  \<open>WORK_FIELD_TO_ED_FIELD\<close> and the node stays in the tree, the node carries the new name
  without prefix if its parent, the last element of \<open>parents\<close>, is a \<open>Not\<close> or a \<open>Prohibit\<close>, and
  the new name with the mandatory prefix \<open>+\<close> otherwise; only the immediate parent counts.
\<close>

theorem renamed_field_mandatory_unless_parent_negation:
  assumes "map_of WORK_FIELD_TO_ED_FIELD name = Some new"
    and "convert_node ps (SearchField name e) = Inr (Some t)"
  shows "(\<exists>e'. t = SearchField (if parent_is_negation ps then new else ''+'' @ new) e')
         \<and> (parent_is_negation ps \<longleftrightarrow>
              (\<exists>x i rest. ps = (Not x, i) # rest \<or> ps = (Prohibit x, i) # rest))"
proof -
  have n: "name \<noteq> ''*''"
    using assms(1) by (auto simp: WORK_FIELD_TO_ED_FIELD_def)
  have c: "convert_work_field_to_edition_field name = Inr (Some new)"
    using assms(1) by (simp add: convert_work_field_to_edition_field_def)
  have ne: "new \<noteq> []" using assms(1) by (rule table_values_nonempty)
  have eq: "convert_node ps (SearchField name e)
              = convert_children ps
                  (\<lambda>cs. SearchField (if parent_is_negation ps then new else ''+'' @ new) (hd cs))
                  [] [e]"
    using n c ne by (simp add: Let_def del: convert_children.simps)
  have "\<exists>e'. t = (\<lambda>cs. SearchField (if parent_is_negation ps then new else ''+'' @ new) (hd cs)) [e']"
    using assms(2) unfolding eq by (rule convert_single_child)
  then have a: "\<exists>e'. t = SearchField (if parent_is_negation ps then new else ''+'' @ new) e'"
    by simp
  have b: "parent_is_negation ps \<longleftrightarrow>
              (\<exists>x i rest. ps = (Not x, i) # rest \<or> ps = (Prohibit x, i) # rest)"
    by (cases ps rule: parent_is_negation.cases) simp_all
  show ?thesis using a b by blast
qed

theorem renamed_field_mandatory_unless_parent_negation_witness:
  "map_of WORK_FIELD_TO_ED_FIELD ''alternative_title'' = Some ''title''
   \<and> convert_node [(Not (SearchField ''alternative_title'' (Word ''Emma'')), 0)]
        (SearchField ''alternative_title'' (Word ''Emma''))
       = Inr (Some (SearchField ''title'' (Word ''Emma'')))
   \<and> convert_node [] (SearchField ''alternative_title'' (Word ''Emma''))
       = Inr (Some (SearchField ''+title'' (Word ''Emma'')))"
proof -
  have m: "map_of WORK_FIELD_TO_ED_FIELD ''alternative_title'' = Some ''title''"
    by (simp add: WORK_FIELD_TO_ED_FIELD_def)
  have c: "convert_work_field_to_edition_field ''alternative_title'' = Inr (Some ''title'')"
    using m by (simp add: convert_work_field_to_edition_field_def)
  have 1: "convert_node [(Not (SearchField ''alternative_title'' (Word ''Emma'')), 0)]
        (SearchField ''alternative_title'' (Word ''Emma''))
       = Inr (Some (SearchField ''title'' (Word ''Emma'')))"
    using c by simp
  have 2: "convert_node [] (SearchField ''alternative_title'' (Word ''Emma''))
       = Inr (Some (SearchField ''+title'' (Word ''Emma'')))"
    using c by simp
  show ?thesis
    using renamed_field_mandatory_unless_parent_negation [OF m 1]
      renamed_field_mandatory_unless_parent_negation [OF m 2] m 1 2
    by simp
qed

text \<open>
  C6 (as the claim states it, refuted): a renamed field anywhere under a \<open>Not\<close> or \<open>Prohibit\<close>,
  also through an intervening \<open>Group\<close>, gets no mandatory prefix. With a \<open>Group\<close> in between, the
  parent of the field is the \<open>Group\<close> and the field gets the \<open>+\<close>.
\<close>

theorem negation_through_group_still_mandatory:
  "map_of WORK_FIELD_TO_ED_FIELD ''title'' = Some ''title''
   \<and> convert_node [] (Not (Group (SearchField ''title'' (Word ''Emma''))))
       = Inr (Some (Not (Group (SearchField ''+title'' (Word ''Emma'')))))
   \<and> convert_node [] (Prohibit (Group (SearchField ''title'' (Word ''Emma''))))
       = Inr (Some (Prohibit (Group (SearchField ''+title'' (Word ''Emma'')))))
   \<and> convert_work_query_to_edition_query example_utils ''NOT (title:Emma)''
       = Inr ''NOT (+title:Emma)''
   \<and> convert_work_query_to_edition_query example_utils ''NOT title:Emma''
       = Inr ''NOT title:Emma''"
  by (simp add: WORK_FIELD_TO_ED_FIELD_def convert_work_field_to_edition_field_def
        convert_work_query_to_edition_query_def example_utils_def example_parser_def)


section \<open>Idempotence of the collection-tag normalizer\<close>








end
